theory Spec2Isabelle
  imports Main "HOL-Library.Sublist"
begin

section \<open>Python strings\<close>

text \<open>
  A Python \<^verbatim>\<open>str\<close> is a sequence of Unicode code points, so a string is a list of
  natural numbers, one per code point. Column labels stay HOL strings: the program never
  looks inside a label, it only compares labels.
\<close>

type_synonym pystr = "nat list"

definition asc :: "string \<Rightarrow> pystr" where
  "asc s = map of_char s"

definition ascii_lower :: "nat \<Rightarrow> nat" where
  "ascii_lower c = (if 65 \<le> c \<and> c \<le> 90 then c + 32 else c)"

text \<open>
  \<^verbatim>\<open>str.lower()\<close>. On a string of ASCII code points it maps \<^verbatim>\<open>A-Z\<close> to \<^verbatim>\<open>a-z\<close> and
  leaves the rest alone. On any other string Python applies the lower-case mapping of the
  Unicode database, which is a table of the interpreter and not of this program: it is the
  parameter \<open>U\<close>.
\<close>

definition py_lower :: "(pystr \<Rightarrow> pystr) \<Rightarrow> pystr \<Rightarrow> pystr" where
  "py_lower U s = (if list_all (\<lambda>c. c < 128) s then map ascii_lower s else U s)"

text \<open>
  \<^verbatim>\<open>str.isspace\<close> on one code point: the characters \<^verbatim>\<open>str.strip()\<close> removes.
\<close>

definition py_isspace :: "nat \<Rightarrow> bool" where
  "py_isspace c =
     ((0x09 \<le> c \<and> c \<le> 0x0D) \<or> (0x1C \<le> c \<and> c \<le> 0x20) \<or> c = 0x85 \<or> c = 0xA0 \<or>
      c = 0x1680 \<or> (0x2000 \<le> c \<and> c \<le> 0x200A) \<or> c = 0x2028 \<or> c = 0x2029 \<or>
      c = 0x202F \<or> c = 0x205F \<or> c = 0x3000)"

definition strip :: "pystr \<Rightarrow> pystr" where
  "strip s = rev (dropWhile py_isspace (rev (dropWhile py_isspace s)))"

text \<open>\<^verbatim>\<open>text.startswith(kw)\<close> and the substring test \<^verbatim>\<open>kw in text\<close>.\<close>

fun startswith :: "pystr \<Rightarrow> pystr \<Rightarrow> bool" where
  "startswith text [] = True"
| "startswith [] (k # ks) = False"
| "startswith (c # cs) (k # ks) = (c = k \<and> startswith cs ks)"

fun py_in :: "pystr \<Rightarrow> pystr \<Rightarrow> bool" where
  "py_in kw [] = (kw = [])"
| "py_in kw (c # cs) = (startswith (c # cs) kw \<or> py_in kw cs)"

text \<open>\<^verbatim>\<open>str(i)\<close> of an integer: its decimal digits, with a minus sign when negative.\<close>

function digits :: "nat \<Rightarrow> pystr" where
  "digits n = (if n < 10 then [48 + n] else digits (n div 10) @ [48 + n mod 10])"
  by pat_completeness auto
termination
  by (relation "measure id") auto

definition str_int :: "int \<Rightarrow> pystr" where
  "str_int i = (if i < 0 then 45 # digits (nat (- i)) else digits (nat i))"

section \<open>Cell values\<close>

text \<open>
  The value of one cell of a data frame. \<open>PyNone\<close> and \<open>NaN\<close> are the two missing
  markers (\<^verbatim>\<open>None\<close> in an object column, \<^verbatim>\<open>nan\<close> anywhere else); \<open>Str\<close> is text and
  \<open>Num\<close> an integer. Floating-point numbers other than \<^verbatim>\<open>nan\<close> are not modelled.
\<close>

datatype cell = PyNone | NaN | Str pystr | Num int

fun isna :: "cell \<Rightarrow> bool" where
  "isna PyNone = True"
| "isna NaN = True"
| "isna (Str s) = False"
| "isna (Num i) = False"

fun py_str :: "cell \<Rightarrow> pystr" where
  "py_str PyNone = asc ''None''"
| "py_str NaN = asc ''nan''"
| "py_str (Str s) = s"
| "py_str (Num i) = str_int i"

section \<open>The text sanitizer \<^verbatim>\<open>clean_diff\<close>\<close>

definition is_crlftab :: "nat \<Rightarrow> bool" where
  "is_crlftab c = (c = 0x0D \<or> c = 0x0A \<or> c = 0x09)"

definition is_control :: "nat \<Rightarrow> bool" where
  "is_control c = (c \<le> 0x1F \<or> (0x7F \<le> c \<and> c \<le> 0x9F))"

text \<open>
  \<^verbatim>\<open>re.sub(r'[\r\n\t]+', ' ', s)\<close>: scanning from the left, a match starts at the first
  character of the class and, being greedy, takes the whole run.
\<close>

function sub_crlftab :: "pystr \<Rightarrow> pystr" where
  "sub_crlftab [] = []"
| "sub_crlftab (c # cs) =
     (if is_crlftab c then 32 # sub_crlftab (dropWhile is_crlftab cs)
      else c # sub_crlftab cs)"
  by pat_completeness auto
termination
  by (relation "measure length") (auto simp: length_dropWhile_le less_Suc_eq_le)

text \<open>\<^verbatim>\<open>re.sub(r'[\x00-\x1F\x7F-\x9F]', '', s)\<close>.\<close>

definition remove_control :: "pystr \<Rightarrow> pystr" where
  "remove_control s = filter (\<lambda>c. \<not> is_control c) s"

text \<open>
  \<^verbatim>\<open>re.sub(r' {2,}', ' ', s)\<close>: a match needs two spaces in a row and then takes the
  whole run; a space on its own is copied.
\<close>

function collapse_spaces :: "pystr \<Rightarrow> pystr" where
  "collapse_spaces [] = []"
| "collapse_spaces [c] = [c]"
| "collapse_spaces (a # b # cs) =
     (if a = 32 \<and> b = 32 then 32 # collapse_spaces (dropWhile (\<lambda>c. c = 32) cs)
      else a # collapse_spaces (b # cs))"
  by pat_completeness auto
termination
  by (relation "measure length") (auto simp: length_dropWhile_le less_Suc_eq_le le_SucI)

definition clean_diff :: "cell \<Rightarrow> pystr" where
  "clean_diff text =
     (if isna text then []
      else strip (collapse_spaces (remove_control (sub_crlftab (py_str text)))))"

text \<open>Two spaces in a row somewhere in a string.\<close>

fun double_space :: "pystr \<Rightarrow> bool" where
  "double_space (a # b # cs) = ((a = 32 \<and> b = 32) \<or> double_space (b # cs))"
| "double_space cs = False"

section \<open>The sanitizer in the words of the specification\<close>

text \<open>
  The specification describes the sanitizer by four steps on the text of the input. They
  are written here as it words them, without looking at the program, to be compared with
  \<open>clean_diff\<close>.

  \<open>spec_runs P s\<close> cuts \<open>s\<close> into its maximal runs: the blocks, in order, of neighbouring
  characters that agree on \<open>P\<close>. A character joins the block to its right when it agrees
  with it and starts a block of its own otherwise.
\<close>

fun spec_runs :: "('a \<Rightarrow> bool) \<Rightarrow> 'a list \<Rightarrow> 'a list list" where
  "spec_runs P [] = []"
| "spec_runs P (c # cs) =
     (case spec_runs P cs of
        [] \<Rightarrow> [[c]]
      | b # bs \<Rightarrow> if P c = P (hd b) then (c # b) # bs else [c] # b # bs)"

text \<open>
  Every maximal run of characters of the class \<open>P\<close> that is at least \<open>n\<close> long is replaced
  by a single space; every other block stays.
\<close>

definition spec_replace_runs :: "(nat \<Rightarrow> bool) \<Rightarrow> nat \<Rightarrow> pystr \<Rightarrow> pystr" where
  "spec_replace_runs P n s =
     concat (map (\<lambda>b. if P (hd b) \<and> n \<le> length b then [32] else b) (spec_runs P s))"

text \<open>The C0 control range, DEL and the C1 control range are removed.\<close>

definition spec_remove_controls :: "pystr \<Rightarrow> pystr" where
  "spec_remove_controls s =
     filter (\<lambda>c. \<not> (c \<le> 31 \<or> c = 127 \<or> (128 \<le> c \<and> c \<le> 159))) s"

text \<open>The white space that leads and the white space that trails are cut off.\<close>

definition spec_trim :: "pystr \<Rightarrow> pystr" where
  "spec_trim s =
     (let a = length (takeWhile py_isspace s); b = length (takeWhile py_isspace (rev s))
      in take (length s - a - b) (drop a s))"

text \<open>
  The four steps in the order of the specification: runs of carriage return, line feed and
  tab become one space; control characters go; runs of two or more spaces become one space;
  the ends are trimmed.
\<close>

definition spec_sanitize :: "pystr \<Rightarrow> pystr" where
  "spec_sanitize s =
     spec_trim (spec_replace_runs (\<lambda>c. c = 32) 2 (spec_remove_controls
       (spec_replace_runs (\<lambda>c. c = 13 \<or> c = 10 \<or> c = 9) 1 s)))"

section \<open>Data frames\<close>

text \<open>
  A pandas \<^verbatim>\<open>DataFrame\<close>: the column labels in order, and the rows, each holding one
  cell per column. Frames that pandas reads from a file are rectangular and carry pairwise
  distinct labels (\<open>wf_frame\<close>); column dtypes are not modelled. The functions below
  return the frame that the program hands to \<^verbatim>\<open>to_csv\<close>, or the exception raised on
  the way; reading and writing files are outside the model.
\<close>

datatype py_error = KeyError "string list" | ValueError | MergeError

record frame =
  columns :: "string list"
  rows :: "cell list list"

definition wf_frame :: "frame \<Rightarrow> bool" where
  "wf_frame df =
     (distinct (columns df) \<and> list_all (\<lambda>r. length r = length (columns df)) (rows df))"

text \<open>\<^verbatim>\<open>row.get(label)\<close> on a row with the labels \<open>cols\<close>: \<^verbatim>\<open>None\<close> when absent.\<close>

definition row_get :: "string list \<Rightarrow> cell list \<Rightarrow> string \<Rightarrow> cell" where
  "row_get cols r n = (case map_of (zip cols r) n of None \<Rightarrow> PyNone | Some v \<Rightarrow> v)"

text \<open>
  \<^verbatim>\<open>df.rename(columns=m)\<close>: a label that is a key of \<open>m\<close> is replaced, any other label
  is kept, and a key that names no column is ignored.
\<close>

definition rename_label :: "(string \<times> string) list \<Rightarrow> string \<Rightarrow> string" where
  "rename_label m c = (case map_of m c of None \<Rightarrow> c | Some c' \<Rightarrow> c')"

definition rename :: "(string \<times> string) list \<Rightarrow> frame \<Rightarrow> frame" where
  "rename m df = df\<lparr>columns := map (rename_label m) (columns df)\<rparr>"

text \<open>
  \<^verbatim>\<open>df[[n1, n2, ...]]\<close>: the columns with these labels in this order; a \<^verbatim>\<open>KeyError\<close>
  naming the labels that the frame does not have.
\<close>

definition select :: "string list \<Rightarrow> frame \<Rightarrow> py_error + frame" where
  "select order df =
     (let missing = filter (\<lambda>n. n \<notin> set (columns df)) order in
      if missing \<noteq> [] then Inl (KeyError missing)
      else Inr \<lparr>columns = concat (map (\<lambda>n. filter (\<lambda>c. c = n) (columns df)) order),
                rows = map (\<lambda>r. concat (map (\<lambda>n. map snd (filter (\<lambda>(c, v). c = n)
                                (zip (columns df) r))) order)) (rows df)\<rparr>)"

text \<open>
  \<^verbatim>\<open>df[n] = df[n].apply(f)\<close>. With no column \<open>n\<close> the read \<^verbatim>\<open>df[n]\<close> raises
  \<^verbatim>\<open>KeyError\<close>. With one it is a \<^verbatim>\<open>Series\<close> and \<open>f\<close> is applied to each cell. With
  several it is a \<^verbatim>\<open>DataFrame\<close>, whose \<^verbatim>\<open>apply\<close> hands \<open>f\<close> whole columns: the
  truth value that \<^verbatim>\<open>clean_diff\<close> asks of \<^verbatim>\<open>pd.isna\<close> is then a \<^verbatim>\<open>ValueError\<close>,
  unless the frame has no row, where pandas swallows the exception.
\<close>

definition apply_column :: "string \<Rightarrow> (cell \<Rightarrow> cell) \<Rightarrow> frame \<Rightarrow> py_error + frame" where
  "apply_column n f df =
     (case filter (\<lambda>c. c = n) (columns df) of
        [] \<Rightarrow> Inl (KeyError [n])
      | [c] \<Rightarrow> Inr (df\<lparr>rows := map (\<lambda>r. map (\<lambda>(c, v). if c = n then f v else v)
                                      (zip (columns df) r)) (rows df)\<rparr>)
      | c # c' # cs \<Rightarrow> if rows df = [] then Inr df else Inl ValueError)"

text \<open>\<^verbatim>\<open>df[n]\<close> as a list of cells, and \<^verbatim>\<open>df[n] = values\<close>.\<close>

definition get_column :: "string \<Rightarrow> frame \<Rightarrow> py_error + cell list" where
  "get_column n df =
     (if n \<in> set (columns df) then Inr (map (\<lambda>r. row_get (columns df) r n) (rows df))
      else Inl (KeyError [n]))"

definition set_column :: "string \<Rightarrow> cell list \<Rightarrow> frame \<Rightarrow> frame" where
  "set_column n vs df =
     (if n \<in> set (columns df)
      then df\<lparr>rows := map (\<lambda>(r, v). map (\<lambda>(c, x). if c = n then v else x) (zip (columns df) r))
                          (zip (rows df) vs)\<rparr>
      else df\<lparr>columns := columns df @ [n], rows := map (\<lambda>(r, v). r @ [v]) (zip (rows df) vs)\<rparr>)"

section \<open>\<^verbatim>\<open>clean_diff\<close> on a value that is not a scalar\<close>




section \<open>Tasks 1 to 4: renaming and selecting columns\<close>

definition task1_rename :: "(string \<times> string) list" where
  "task1_rename =
     [(''title'', ''TITLE''), (''id'', ''ID''), (''agent'', ''AGENTNAME''),
      (''body'', ''BODYSTRING''), (''repo_id'', ''REPOID''), (''repo_url'', ''REPOURL'')]"

definition task1_order :: "string list" where
  "task1_order = [''TITLE'', ''ID'', ''AGENTNAME'', ''BODYSTRING'', ''REPOID'', ''REPOURL'']"

definition produce_task1 :: "frame \<Rightarrow> py_error + frame" where
  "produce_task1 df = select task1_order (rename task1_rename df)"

definition task2_rename :: "(string \<times> string) list" where
  "task2_rename =
     [(''id'', ''REPOID''), (''language'', ''LANG''), (''stars'', ''STARS''), (''url'', ''REPOURL'')]"

definition task2_order :: "string list" where
  "task2_order = [''REPOID'', ''LANG'', ''STARS'', ''REPOURL'']"

definition produce_task2 :: "frame \<Rightarrow> py_error + frame" where
  "produce_task2 df = select task2_order (rename task2_rename df)"

definition task3_rename :: "(string \<times> string) list" where
  "task3_rename =
     [(''id'', ''PRID''), (''title'', ''PRTITLE''), (''reason'', ''PRREASON''),
      (''type'', ''PRTYPE''), (''confidence'', ''CONFIDENCE'')]"

definition task3_order :: "string list" where
  "task3_order = [''PRID'', ''PRTITLE'', ''PRREASON'', ''PRTYPE'', ''CONFIDENCE'']"

definition produce_task3 :: "frame \<Rightarrow> py_error + frame" where
  "produce_task3 df = select task3_order (rename task3_rename df)"

definition task4_rename :: "(string \<times> string) list" where
  "task4_rename =
     [(''pr_id'', ''PRID''), (''sha'', ''PRSHA''), (''message'', ''PRCOMMITMESSAGE''),
      (''filename'', ''PRFILE''), (''status'', ''PRSTATUS''), (''additions'', ''PRADDS''),
      (''deletions'', ''PRDELSS''), (''changes'', ''PRCHANGECOUNT''), (''patch'', ''PRDIFF'')]"

definition task4_order :: "string list" where
  "task4_order =
     [''PRID'', ''PRSHA'', ''PRCOMMITMESSAGE'', ''PRFILE'', ''PRSTATUS'',
      ''PRADDS'', ''PRDELSS'', ''PRCHANGECOUNT'', ''PRDIFF'']"

definition produce_task4 :: "frame \<Rightarrow> py_error + frame" where
  "produce_task4 df =
     (case apply_column ''PRDIFF'' (\<lambda>v. Str (clean_diff v)) (rename task4_rename df) of
        Inl e \<Rightarrow> Inl e
      | Inr out \<Rightarrow> select task4_order out)"

section \<open>Task 5: the left join and the security flag\<close>

definition security_keywords :: "pystr list" where
  "security_keywords = map asc
     [''race'', ''racy'', ''buffer'', ''overflow'', ''stack'', ''integer'', ''signedness'',
      ''underflow'', ''improper'', ''unauthenticated'', ''gain access'', ''permission'',
      ''cross site'', ''css'', ''xss'', ''denial service'', ''dos'', ''crash'', ''deadlock'',
      ''injection'', ''request forgery'', ''csrf'', ''xsrf'', ''forged'', ''security'',
      ''vulnerability'', ''vulnerable'', ''exploit'', ''attack'', ''bypass'', ''backdoor'',
      ''threat'', ''expose'', ''breach'', ''violate'', ''fatal'', ''blacklist'', ''overrun'',
      ''insecure'']"

text \<open>The list \<^verbatim>\<open>keywords\<close> of the program: \<^verbatim>\<open>[k.lower() for k in security_keywords]\<close>.\<close>

definition keywords_lower :: "(pystr \<Rightarrow> pystr) \<Rightarrow> pystr list" where
  "keywords_lower U = map (py_lower U) security_keywords"

text \<open>The loop \<^verbatim>\<open>for kw in keywords: if kw in text: return 1\<close>, then \<^verbatim>\<open>return 0\<close>.\<close>

fun scan_keywords :: "pystr list \<Rightarrow> pystr \<Rightarrow> int" where
  "scan_keywords [] text = 0"
| "scan_keywords (kw # kws) text = (if py_in kw text then 1 else scan_keywords kws text)"

text \<open>The local \<^verbatim>\<open>text\<close> of \<^verbatim>\<open>has_security_flag\<close>, and the function itself.\<close>

definition flag_text :: "(pystr \<Rightarrow> pystr) \<Rightarrow> string list \<Rightarrow> cell list \<Rightarrow> pystr" where
  "flag_text U cols row =
     (let title = (if isna (row_get cols row ''TITLE'') then []
                   else py_lower U (py_str (row_get cols row ''TITLE'')));
          body = (if isna (row_get cols row ''BODYSTRING'') then []
                  else py_lower U (py_str (row_get cols row ''BODYSTRING'')))
      in title @ [32] @ body)"

definition has_security_flag :: "(pystr \<Rightarrow> pystr) \<Rightarrow> string list \<Rightarrow> cell list \<Rightarrow> int" where
  "has_security_flag U cols row = scan_keywords (keywords_lower U) (flag_text U cols row)"

text \<open>
  \<^verbatim>\<open>left.merge(right, left_on=lk, right_on=rk, how="left", suffixes=("", sfx))\<close>.
  Two keys match when they are equal or both missing. Each left row is followed through in
  order: it is paired with every right row whose key matches, in the right frame's order,
  and with a row of \<^verbatim>\<open>nan\<close> when none does. A right label that the left frame has too takes
  the suffix; pandas raises \<^verbatim>\<open>MergeError\<close> when that repeats a label of the right frame.
\<close>

definition key_match :: "cell \<Rightarrow> cell \<Rightarrow> bool" where
  "key_match a b = ((isna a \<and> isna b) \<or> a = b)"

definition matching_rows :: "frame \<Rightarrow> frame \<Rightarrow> string \<Rightarrow> string \<Rightarrow> cell list \<Rightarrow> cell list list" where
  "matching_rows L R lk rk l =
     filter (\<lambda>r. key_match (row_get (columns L) l lk) (row_get (columns R) r rk)) (rows R)"

definition merge_labels :: "string list \<Rightarrow> string list \<Rightarrow> string \<Rightarrow> string list" where
  "merge_labels left right sfx = map (\<lambda>c. if c \<in> set left then c @ sfx else c) right"

definition duplicated :: "string list \<Rightarrow> bool list" where
  "duplicated xs = map (\<lambda>i. xs ! i \<in> set (take i xs)) [0..<length xs]"

definition suffix_dups :: "string list \<Rightarrow> string list \<Rightarrow> string list" where
  "suffix_dups right rlabels =
     map fst (filter (\<lambda>(c, d, d0). d \<and> \<not> d0)
       (zip rlabels (zip (duplicated rlabels) (duplicated right))))"

text \<open>The rows of the result that one left row \<open>l\<close> accounts for.\<close>

definition join_row :: "frame \<Rightarrow> frame \<Rightarrow> string \<Rightarrow> string \<Rightarrow> cell list \<Rightarrow> cell list list" where
  "join_row L R lk rk l =
     (case matching_rows L R lk rk l of
        [] \<Rightarrow> [l @ replicate (length (columns R)) NaN]
      | m # ms \<Rightarrow> map (\<lambda>r. l @ r) (m # ms))"

definition merge_left :: "frame \<Rightarrow> frame \<Rightarrow> string \<Rightarrow> string \<Rightarrow> string \<Rightarrow> py_error + frame" where
  "merge_left L R lk rk sfx =
     (if rk \<notin> set (columns R) then Inl (KeyError [rk])
      else if lk \<notin> set (columns L) then Inl (KeyError [lk])
      else if suffix_dups (columns R) (merge_labels (columns L) (columns R) sfx) \<noteq> []
      then Inl MergeError
      else Inr \<lparr>columns = columns L @ merge_labels (columns L) (columns R) sfx,
                rows = concat (map (join_row L R lk rk) (rows L))\<rparr>)"

text \<open>
  \<^verbatim>\<open>produce_task5\<close>, from the two frames that \<^verbatim>\<open>read_csv\<close> returned to the frame
  written out.
\<close>

definition produce_task5 :: "(pystr \<Rightarrow> pystr) \<Rightarrow> frame \<Rightarrow> frame \<Rightarrow> py_error + frame" where
  "produce_task5 U df1 df3 =
     (case merge_left df1 df3 ''ID'' ''PRID'' ''_task3'' of
        Inl e \<Rightarrow> Inl e
      | Inr merged0 \<Rightarrow>
          (let flags = map (\<lambda>r. Num (has_security_flag U (columns merged0) r)) (rows merged0);
               merged = set_column ''SECURITY'' flags merged0
           in case get_column ''ID'' merged of Inl e \<Rightarrow> Inl e | Inr ids \<Rightarrow>
             (case get_column ''AGENTNAME'' merged of Inl e \<Rightarrow> Inl e | Inr agents \<Rightarrow>
             (case get_column ''PRTYPE'' merged of Inl e \<Rightarrow> Inl e | Inr types \<Rightarrow>
             (case get_column ''CONFIDENCE'' merged of Inl e \<Rightarrow> Inl e | Inr confs \<Rightarrow>
             (case get_column ''SECURITY'' merged of Inl e \<Rightarrow> Inl e | Inr secs \<Rightarrow>
                Inr \<lparr>columns = [''ID'', ''AGENT'', ''TYPE'', ''CONFIDENCE'', ''SECURITY''],
                     rows = map (\<lambda>(i, a, t, c, s). [i, a, t, c, s])
                              (zip ids (zip agents (zip types (zip confs secs))))\<rparr>))))))"

text \<open>How many rows of the output one PR row accounts for.\<close>

definition fan_out :: "frame \<Rightarrow> frame \<Rightarrow> cell list \<Rightarrow> nat" where
  "fan_out pr cls l = max 1 (length (matching_rows pr cls ''ID'' ''PRID'' l))"

section \<open>Example tables\<close>

text \<open>
  A PR table of two rows (the first with a security keyword in its title and no body), and
  classification tables with no row, with one row for PR 1, and with two rows for PR 1.
\<close>

definition pr_example :: frame where
  "pr_example =
     \<lparr>columns = [''TITLE'', ''ID'', ''AGENTNAME'', ''BODYSTRING'', ''REPOID'', ''REPOURL''],
      rows = [[Str (asc ''Fix XSS vulnerability''), Num 1, Str (asc ''Devin''), NaN, Num 7,
               Str (asc ''u'')],
              [Str (asc ''Add docs''), Num 5, Str (asc ''Codex''), Str (asc ''readme''), Num 7,
               Str (asc ''u'')]]\<rparr>"

definition cls_columns :: "string list" where
  "cls_columns = [''PRID'', ''PRTITLE'', ''PRREASON'', ''PRTYPE'', ''CONFIDENCE'']"

definition cls_none :: frame where
  "cls_none = \<lparr>columns = cls_columns, rows = []\<rparr>"

definition cls_once :: frame where
  "cls_once =
     \<lparr>columns = cls_columns,
      rows = [[Num 1, Str (asc ''t''), Str (asc ''r''), Str (asc ''fix''), Num 9]]\<rparr>"

definition cls_twice :: frame where
  "cls_twice =
     \<lparr>columns = cls_columns,
      rows = [[Num 1, Str (asc ''t''), Str (asc ''r''), Str (asc ''fix''), Num 9],
              [Num 1, Str (asc ''t''), Str (asc ''r''), Str (asc ''feat''), Num 8]]\<rparr>"

definition out_columns :: "string list" where
  "out_columns = [''ID'', ''AGENT'', ''TYPE'', ''CONFIDENCE'', ''SECURITY'']"

text \<open>
  A raw PR table and a raw commit table as \<^verbatim>\<open>read_parquet\<close> may return them; the body,
  the commit message and the patch hold a line feed. The last table has an \<^verbatim>\<open>id\<close> column
  only.
\<close>

definition raw_pr_example :: frame where
  "raw_pr_example =
     \<lparr>columns = [''id'', ''number'', ''title'', ''agent'', ''body'', ''repo_id'', ''repo_url''],
      rows = [[Num 5, Num 17, Str (asc ''Fix''), Str (asc ''Devin''), Str [97, 10, 98], Num 7,
               Str (asc ''u'')]]\<rparr>"

definition commit_example :: frame where
  "commit_example =
     \<lparr>columns = [''sha'', ''pr_id'', ''message'', ''filename'', ''status'', ''additions'',
                 ''deletions'', ''changes'', ''patch''],
      rows = [[Str (asc ''c0ffee''), Num 5, Str [97, 10, 98], Str (asc ''f.py''), PyNone, Num 1,
               Num 2, Num 3, Str [43, 120, 13, 10, 9, 45, 121]],
              [Str (asc ''c0ffef''), Num 5, Str (asc ''m''), Str (asc ''g.py''), PyNone, Num 0,
               Num 0, Num 0, PyNone]]\<rparr>"

definition id_only_example :: frame where
  "id_only_example = \<lparr>columns = [''id''], rows = [[Num 5]]\<rparr>"

text \<open>What the program computes from the example tables.\<close>

definition out_none :: frame where
  "out_none =
     \<lparr>columns = out_columns,
      rows = [[Num 1, Str (asc ''Devin''), NaN, NaN, Num 1],
              [Num 5, Str (asc ''Codex''), NaN, NaN, Num 0]]\<rparr>"

definition out_once :: frame where
  "out_once =
     \<lparr>columns = out_columns,
      rows = [[Num 1, Str (asc ''Devin''), Str (asc ''fix''), Num 9, Num 1],
              [Num 5, Str (asc ''Codex''), NaN, NaN, Num 0]]\<rparr>"

definition out_twice :: frame where
  "out_twice =
     \<lparr>columns = out_columns,
      rows = [[Num 1, Str (asc ''Devin''), Str (asc ''fix''), Num 9, Num 1],
              [Num 1, Str (asc ''Devin''), Str (asc ''feat''), Num 8, Num 1],
              [Num 5, Str (asc ''Codex''), NaN, NaN, Num 0]]\<rparr>"

definition merged_twice :: frame where
  "merged_twice =
     \<lparr>columns = columns pr_example @ cls_columns,
      rows = [hd (rows pr_example) @ hd (rows cls_twice),
              hd (rows pr_example) @ last (rows cls_twice),
              last (rows pr_example) @ replicate 5 NaN]\<rparr>"

definition task1_out_example :: frame where
  "task1_out_example =
     \<lparr>columns = task1_order,
      rows = [[Str (asc ''Fix''), Num 5, Str (asc ''Devin''), Str [97, 10, 98], Num 7,
               Str (asc ''u'')]]\<rparr>"

definition task4_out_example :: frame where
  "task4_out_example =
     \<lparr>columns = task4_order,
      rows = [[Num 5, Str (asc ''c0ffee''), Str [97, 10, 98], Str (asc ''f.py''), PyNone, Num 1,
               Num 2, Num 3, Str [43, 120, 32, 45, 121]],
              [Num 5, Str (asc ''c0ffef''), Str (asc ''m''), Str (asc ''g.py''), PyNone, Num 0,
               Num 0, Num 0, Str []]]\<rparr>"

section \<open>Properties of the sanitizer\<close>

lemma sub_crlftab_id: "\<forall>c\<in>set s. \<not> is_crlftab c \<Longrightarrow> sub_crlftab s = s"
  by (induction s) auto

lemma set_collapse: "set (collapse_spaces s) \<subseteq> set s"
  by (induction s rule: collapse_spaces.induct) (auto split: if_splits dest: set_dropWhileD)

lemma hd_collapse: "s \<noteq> [] \<Longrightarrow> hd (collapse_spaces s) = hd s \<and> collapse_spaces s \<noteq> []"
  by (induction s rule: collapse_spaces.induct) auto

lemma collapse_no_double: "\<not> double_space (collapse_spaces s)"
proof (induction s rule: collapse_spaces.induct)
  case (3 a b cs)
  show ?case
  proof (cases "a = 32 \<and> b = 32")
    case True
    let ?r = "dropWhile (\<lambda>c. c = 32) cs"
    show ?thesis
    proof (cases ?r)
      case Nil
      show ?thesis by (simp add: True Nil)
    next
      case (Cons x xs)
      then have "x \<noteq> 32" using hd_dropWhile[of "\<lambda>c. c = 32" cs] by auto
      moreover have "hd (collapse_spaces ?r) = x" "collapse_spaces ?r \<noteq> []"
        using hd_collapse[of ?r] Cons by auto
      ultimately show ?thesis using True 3 by (cases "collapse_spaces ?r") auto
    qed
  next
    case False
    have "hd (collapse_spaces (b # cs)) = b" "collapse_spaces (b # cs) \<noteq> []"
      using hd_collapse[of "b # cs"] by auto
    then show ?thesis using False 3 by (cases "collapse_spaces (b # cs)") auto
  qed
qed simp_all

lemma collapse_id: "\<not> double_space s \<Longrightarrow> collapse_spaces s = s"
  by (induction s rule: collapse_spaces.induct) auto

lemma double_space_sublist: "double_space s = sublist [32, 32] s"
  by (induction s rule: double_space.induct) (auto simp: sublist_Cons_right)

lemma sublist_strip: "sublist (strip s) s"
proof -
  let ?t = "dropWhile py_isspace s"
  have "suffix (dropWhile py_isspace (rev ?t)) (rev ?t)" by (rule suffix_dropWhile)
  then have "sublist (rev (strip s)) (rev ?t)" by (simp add: strip_def)
  then have "sublist (strip s) ?t" by (simp only: sublist_rev)
  moreover have "sublist ?t s" using suffix_dropWhile[of py_isspace s] by (rule suffix_imp_sublist)
  ultimately show ?thesis by (rule sublist_order.order_trans)
qed

lemma strip_ends: "strip s \<noteq> [] \<Longrightarrow> \<not> py_isspace (hd (strip s)) \<and> \<not> py_isspace (last (strip s))"
proof -
  assume ne: "strip s \<noteq> []"
  let ?t = "dropWhile py_isspace s"
  let ?u = "dropWhile py_isspace (rev ?t)"
  have u: "?u \<noteq> []" using ne by (simp add: strip_def)
  then have 1: "\<not> py_isspace (hd ?u)" by (rule hd_dropWhile)
  have l: "last (strip s) = hd ?u" using u by (simp add: strip_def last_rev)
  have "?t \<noteq> []"
  proof
    assume "?t = []"
    then have "?u = []" by (simp only: rev.simps dropWhile.simps)
    with u show False by simp
  qed
  then have 2: "\<not> py_isspace (hd ?t)" by (rule hd_dropWhile)
  obtain ys where "rev ?t = ys @ ?u" by (metis takeWhile_dropWhile_id)
  then have "?t = rev ?u @ rev ys" by (metis rev_append rev_rev_ident)
  then have "hd ?t = hd (rev ?u)" using u by (metis hd_append2 rev_is_Nil_conv)
  then have "hd (strip s) = hd ?t" by (simp add: strip_def)
  with 1 2 l show ?thesis by simp
qed

lemma strip_id: "s = [] \<or> (\<not> py_isspace (hd s) \<and> \<not> py_isspace (last s)) \<Longrightarrow> strip s = s"
proof (cases s)
  case Nil then show ?thesis by (simp add: strip_def)
next
  case (Cons a as)
  assume "s = [] \<or> (\<not> py_isspace (hd s) \<and> \<not> py_isspace (last s))"
  with Cons have a: "\<not> py_isspace a" and b: "\<not> py_isspace (last s)" by auto
  have 1: "dropWhile py_isspace s = s" using a Cons by simp
  obtain x xs where r: "rev s = x # xs" using Cons by (cases "rev s") auto
  then have "x = last s" using Cons by (metis hd_rev list.sel(1))
  then have "\<not> py_isspace x" using b by simp
  then have "dropWhile py_isspace (rev s) = rev s" unfolding r by simp
  with 1 show ?thesis by (simp add: strip_def)
qed

lemma sub_crlftab_append:
  "pre = [] \<or> \<not> is_crlftab (last pre) \<Longrightarrow> sub_crlftab (pre @ rest) = sub_crlftab pre @ sub_crlftab rest"
proof (induction pre rule: sub_crlftab.induct)
  case 1
  then show ?case by simp
next
  case (2 c cs)
  show ?case
  proof (cases "is_crlftab c")
    case False
    then show ?thesis using 2 by (cases cs) auto
  next
    case True
    with 2(3) have ne: "cs \<noteq> []" and l: "\<not> is_crlftab (last cs)" by (auto split: if_splits)
    then have m: "last cs \<in> set cs" by simp
    have d: "dropWhile is_crlftab (cs @ rest) = dropWhile is_crlftab cs @ rest"
      using m l by (rule dropWhile_append1)
    have dn: "dropWhile is_crlftab cs \<noteq> []" using m l by auto
    have "last (dropWhile is_crlftab cs) = last cs"
      using dn by (metis last_appendR takeWhile_dropWhile_id)
    with l dn 2(1)[OF True] have
      "sub_crlftab (dropWhile is_crlftab cs @ rest) = sub_crlftab (dropWhile is_crlftab cs) @ sub_crlftab rest"
      by simp
    with True d show ?thesis by simp
  qed
qed

lemma sub_crlftab_run:
  assumes "run \<noteq> []" "list_all is_crlftab run" "post = [] \<or> \<not> is_crlftab (hd post)"
  shows "sub_crlftab (run @ post) = 32 # sub_crlftab post"
proof -
  obtain c cs where r: "run = c # cs" using assms(1) by (cases run) auto
  with assms(2) have c: "is_crlftab c" and cs: "\<forall>x\<in>set cs. is_crlftab x" by (auto simp: list_all_iff)
  have "dropWhile is_crlftab post = post" using assms(3) by (cases post) auto
  with cs have "dropWhile is_crlftab (cs @ post) = post" by (simp add: dropWhile_append2)
  with c r show ?thesis by simp
qed

lemma collapse_append:
  "pre = [] \<or> last pre \<noteq> 32 \<Longrightarrow> collapse_spaces (pre @ rest) = collapse_spaces pre @ collapse_spaces rest"
proof (induction pre rule: collapse_spaces.induct)
  case 1
  then show ?case by simp
next
  case (2 c)
  then show ?case by (cases rest) auto
next
  case (3 a b cs)
  show ?case
  proof (cases "a = 32 \<and> b = 32")
    case False
    then show ?thesis using 3 by auto
  next
    case True
    let ?P = "\<lambda>c::nat. c = 32"
    from 3(3) True have ne: "cs \<noteq> []" and l: "\<not> ?P (last cs)" by (auto split: if_splits)
    then have m: "last cs \<in> set cs" by simp
    have d: "dropWhile ?P (cs @ rest) = dropWhile ?P cs @ rest"
      using m l by (rule dropWhile_append1)
    have dn: "dropWhile ?P cs \<noteq> []" using m l by auto
    have "last (dropWhile ?P cs) = last cs"
      using dn by (metis last_appendR takeWhile_dropWhile_id)
    with l dn 3(1)[OF True] have
      "collapse_spaces (dropWhile ?P cs @ rest) = collapse_spaces (dropWhile ?P cs) @ collapse_spaces rest"
      by simp
    with True d show ?thesis by simp
  qed
qed

lemma collapse_run:
  assumes "2 \<le> length run" "list_all (\<lambda>c. c = 32) run" "post = [] \<or> hd post \<noteq> 32"
  shows "collapse_spaces (run @ post) = 32 # collapse_spaces post"
proof -
  obtain a b cs where r: "run = a # b # cs" using assms(1)
    by (cases run; cases "tl run") auto
  with assms(2) have ab: "a = 32" "b = 32" and cs: "\<forall>x\<in>set cs. x = 32" by (auto simp: list_all_iff)
  have "dropWhile (\<lambda>c. c = 32) post = post" using assms(3) by (cases post) auto
  with cs have "dropWhile (\<lambda>c. c = 32) (cs @ post) = post" by (simp add: dropWhile_append2)
  with ab r show ?thesis by simp
qed

lemma crlftab_control: "is_crlftab c \<Longrightarrow> is_control c"
  by (auto simp: is_crlftab_def is_control_def)

lemma clean_diff_no_control: "c \<in> set (clean_diff x) \<Longrightarrow> \<not> is_control c"
proof -
  assume c: "c \<in> set (clean_diff x)"
  show ?thesis
  proof (cases "isna x")
    case True
    with c show ?thesis by (simp add: clean_diff_def)
  next
    case False
    let ?r = "remove_control (sub_crlftab (py_str x))"
    from c False have "c \<in> set (strip (collapse_spaces ?r))" by (simp add: clean_diff_def)
    then have "c \<in> set (collapse_spaces ?r)" using sublist_strip set_mono_sublist by blast
    then have "c \<in> set ?r" using set_collapse by blast
    then show ?thesis by (simp add: remove_control_def)
  qed
qed

lemma clean_diff_no_double: "\<not> double_space (clean_diff x)"
proof (cases "isna x")
  case True
  then show ?thesis by (simp add: clean_diff_def)
next
  case False
  let ?r = "collapse_spaces (remove_control (sub_crlftab (py_str x)))"
  have "\<not> sublist [32, 32] ?r" using collapse_no_double by (simp add: double_space_sublist)
  then have "\<not> sublist [32, 32] (strip ?r)"
    using sublist_strip sublist_order.order_trans by blast
  with False show ?thesis by (simp add: clean_diff_def double_space_sublist)
qed

lemma clean_diff_ends:
  "clean_diff x \<noteq> [] \<Longrightarrow> \<not> py_isspace (hd (clean_diff x)) \<and> \<not> py_isspace (last (clean_diff x))"
  by (cases "isna x") (simp_all add: clean_diff_def strip_ends)

lemma clean_diff_fixed:
  assumes "\<forall>c\<in>set t. \<not> is_control c" "\<not> double_space t"
    "t = [] \<or> (\<not> py_isspace (hd t) \<and> \<not> py_isspace (last t))"
  shows "clean_diff (Str t) = t"
proof -
  have "sub_crlftab t = t" using assms(1) crlftab_control by (intro sub_crlftab_id) blast
  moreover have "remove_control t = t" using assms(1) by (simp add: remove_control_def)
  moreover have "collapse_spaces t = t" using assms(2) by (rule collapse_id)
  moreover have "strip t = t" using assms(3) by (rule strip_id)
  ultimately show ?thesis by (simp add: clean_diff_def)
qed

section \<open>The sanitizer against its specification\<close>

text \<open>
  The blocks of \<open>spec_runs\<close> are the maximal runs: put end to end they give the string
  back (\<open>spec_runs_concat\<close>), none is empty and all characters of a block agree on \<open>P\<close>
  (\<open>spec_runs_blocks\<close>), and two neighbouring blocks disagree (\<open>spec_runs_maximal\<close>). Each
  stage of \<open>clean_diff\<close> is then shown to equal the step of the specification.
\<close>

lemma spec_runs_Cons: "\<exists>b bs. spec_runs P (c # cs) = (c # b) # bs"
  by (cases "spec_runs P cs") auto

lemma spec_runs_concat: "concat (spec_runs P s) = s"
proof (induction s)
  case (Cons c cs)
  then show ?case by (cases "spec_runs P cs") auto
qed simp

lemma spec_runs_step:
  "spec_runs P cs = b # bs \<Longrightarrow>
   spec_runs P (c # cs) = (if P c = P (hd b) then (c # b) # bs else [c] # b # bs)"
  by simp

lemma spec_runs_single: "spec_runs P [c] = [[c]]"
  by simp

declare spec_runs.simps(2) [simp del]

lemma spec_runs_blocks:
  "b \<in> set (spec_runs P s) \<Longrightarrow> b \<noteq> [] \<and> (list_all P b \<or> list_all (\<lambda>x. \<not> P x) b)"
proof (induction s arbitrary: b)
  case Nil
  then show ?case by simp
next
  case (Cons c cs)
  show ?case
  proof (cases "spec_runs P cs")
    case Nil
    have "cs = []"
    proof (cases cs)
      case (Cons a as)
      with spec_runs_Cons[of P a as] Nil show ?thesis by auto
    qed simp
    with Cons.prems show ?thesis by (simp add: spec_runs_single)
  next
    case (Cons d ds)
    have d: "d \<noteq> [] \<and> (list_all P d \<or> list_all (\<lambda>x. \<not> P x) d)"
      using Cons.IH[of d] Cons by simp
    have r: "e \<noteq> [] \<and> (list_all P e \<or> list_all (\<lambda>x. \<not> P x) e)" if "e \<in> set ds" for e
      using Cons.IH[of e] Cons that by simp
    show ?thesis
    proof (cases "P c = P (hd d)")
      case True
      then have "spec_runs P (c # cs) = (c # d) # ds" using spec_runs_step[OF Cons] by simp
      with Cons.prems have "b = c # d \<or> b \<in> set ds" by simp
      then show ?thesis
      proof
        assume "b = c # d"
        with d True show ?thesis by (cases d) auto
      next
        assume "b \<in> set ds"
        then show ?thesis by (rule r)
      qed
    next
      case False
      then have "spec_runs P (c # cs) = [c] # d # ds" using spec_runs_step[OF Cons] by simp
      with Cons.prems have "b = [c] \<or> b = d \<or> b \<in> set ds" by simp
      then show ?thesis using d r by auto
    qed
  qed
qed

lemma spec_runs_run:
  fixes P :: "'a \<Rightarrow> bool"
  shows "spec_runs P (c # cs)
     = (c # takeWhile (\<lambda>x. P x = P c) cs) # spec_runs P (dropWhile (\<lambda>x. P x = P c) cs)"
proof (induction cs arbitrary: c)
  case Nil
  then show ?case by (simp add: spec_runs_single)
next
  case (Cons d ds)
  from spec_runs_Cons[of P d ds] obtain b bs where e: "spec_runs P (d # ds) = (d # b) # bs"
    by blast
  show ?case
  proof (cases "P d = P c")
    case True
    have 1: "spec_runs P (c # d # ds) = (c # d # b) # bs"
      using spec_runs_step[OF e, of c] True by simp
    have 2: "(d # b) # bs = (d # takeWhile (\<lambda>x. P x = P d) ds) # spec_runs P (dropWhile (\<lambda>x. P x = P d) ds)"
      using Cons.IH[of d] e by simp
    have "takeWhile (\<lambda>x. P x = P c) (d # ds) = d # takeWhile (\<lambda>x. P x = P d) ds"
      "dropWhile (\<lambda>x. P x = P c) (d # ds) = dropWhile (\<lambda>x. P x = P d) ds"
      using True by simp_all
    with 1 2 show ?thesis by simp
  next
    case False
    have "spec_runs P (c # d # ds) = [c] # (d # b) # bs"
      using spec_runs_step[OF e, of c] False by auto
    then have "spec_runs P (c # d # ds) = [c] # spec_runs P (d # ds)"
      by (simp only: e)
    moreover have "takeWhile (\<lambda>x. P x = P c) (d # ds) = []"
      "dropWhile (\<lambda>x. P x = P c) (d # ds) = d # ds" using False by simp_all
    ultimately show ?thesis by simp
  qed
qed

lemma spec_runs_maximal:
  "Suc i < length (spec_runs P s) \<Longrightarrow>
   P (hd (spec_runs P s ! i)) \<noteq> P (hd (spec_runs P s ! Suc i))"
proof (induction s arbitrary: i)
  case Nil
  then show ?case by simp
next
  case (Cons c cs)
  show ?case
  proof (cases "spec_runs P cs")
    case Nil
    have "cs = []"
    proof (cases cs)
      case (Cons a as)
      with spec_runs_Cons[of P a as] Nil show ?thesis by auto
    qed simp
    with Cons.prems show ?thesis by (simp add: spec_runs_single)
  next
    case (Cons d ds)
    have dn: "d \<noteq> []" using spec_runs_blocks[of d P cs] Cons by simp
    show ?thesis
    proof (cases "P c = P (hd d)")
      case True
      then have e: "spec_runs P (c # cs) = (c # d) # ds" using spec_runs_step[OF Cons] by simp
      from Cons.prems e have i: "Suc i < length (spec_runs P cs)" by (simp add: Cons)
      have "P (hd (spec_runs P cs ! i)) \<noteq> P (hd (spec_runs P cs ! Suc i))"
        using i by (rule Cons.IH)
      then show ?thesis using e Cons True by (cases i) simp_all
    next
      case False
      then have e: "spec_runs P (c # cs) = [c] # d # ds" using spec_runs_step[OF Cons] by simp
      show ?thesis
      proof (cases i)
        case 0
        with e False show ?thesis by simp
      next
        case (Suc j)
        with Cons.prems e have "Suc j < length (spec_runs P cs)" by (simp add: Cons)
        then have "P (hd (spec_runs P cs ! j)) \<noteq> P (hd (spec_runs P cs ! Suc j))"
          by (rule Cons.IH)
        with e Cons Suc show ?thesis by simp
      qed
    qed
  qed
qed

lemma spec_replace_Nil: "spec_replace_runs P n [] = []"
  by (simp add: spec_replace_runs_def)

lemma spec_replace_keep:
  assumes "\<not> P a \<or> (1 < n \<and> (rest = [] \<or> \<not> P (hd rest)))"
  shows "spec_replace_runs P n (a # rest) = a # spec_replace_runs P n rest"
proof (cases rest)
  case Nil
  with assms show ?thesis by (auto simp: spec_replace_runs_def spec_runs_single)
next
  case (Cons d ds)
  from spec_runs_Cons[of P d ds] obtain b bs where e: "spec_runs P (d # ds) = (d # b) # bs"
    by blast
  note s = spec_runs_step[OF e, of a]
  show ?thesis
  proof (cases "P a = P d")
    case True
    with assms Cons have na: "\<not> P a" "\<not> P d" by auto
    from s True have "spec_runs P (a # d # ds) = (a # d # b) # bs" by simp
    with na e Cons show ?thesis by (simp add: spec_replace_runs_def)
  next
    case False
    from s False have "spec_runs P (a # d # ds) = [a] # (d # b) # bs" by simp
    with assms e Cons show ?thesis by (auto simp: spec_replace_runs_def)
  qed
qed

lemma spec_replace_run:
  assumes "P a" "n \<le> Suc (length (takeWhile P rest))"
  shows "spec_replace_runs P n (a # rest) = 32 # spec_replace_runs P n (dropWhile P rest)"
proof -
  have q: "(\<lambda>x. P x = P a) = P" using assms(1) by auto
  have "spec_runs P (a # rest) = (a # takeWhile P rest) # spec_runs P (dropWhile P rest)"
    using spec_runs_run[of P a rest] by (simp only: q)
  with assms show ?thesis by (simp add: spec_replace_runs_def)
qed

lemma sub_crlftab_spec: "sub_crlftab s = spec_replace_runs is_crlftab 1 s"
proof (induction s rule: sub_crlftab.induct)
  case 1
  show ?case by (simp add: spec_replace_Nil)
next
  case (2 c cs)
  show ?case
  proof (cases "is_crlftab c")
    case True
    with 2 show ?thesis by (simp add: spec_replace_run)
  next
    case False
    with 2 show ?thesis by (simp add: spec_replace_keep)
  qed
qed

lemma collapse_spaces_spec: "collapse_spaces s = spec_replace_runs (\<lambda>c. c = 32) 2 s"
proof (induction s rule: collapse_spaces.induct)
  case 1
  show ?case by (simp add: spec_replace_Nil)
next
  case (2 c)
  show ?case by (simp add: spec_replace_keep spec_replace_Nil)
next
  case (3 a b cs)
  show ?case
  proof (cases "a = 32 \<and> b = 32")
    case True
    then have "spec_replace_runs (\<lambda>c. c = 32) 2 (a # b # cs)
                 = 32 # spec_replace_runs (\<lambda>c. c = 32) 2 (dropWhile (\<lambda>c. c = 32) (b # cs))"
      by (intro spec_replace_run) simp_all
    with True 3 show ?thesis by simp
  next
    case False
    then have "spec_replace_runs (\<lambda>c. c = 32) 2 (a # b # cs)
                 = a # spec_replace_runs (\<lambda>c. c = 32) 2 (b # cs)"
      by (intro spec_replace_keep) auto
    moreover have "collapse_spaces (a # b # cs) = a # collapse_spaces (b # cs)"
      using False by auto
    moreover have "collapse_spaces (b # cs) = spec_replace_runs (\<lambda>c. c = 32) 2 (b # cs)"
      using False by (intro 3(2)) simp
    ultimately show ?thesis by (simp only:)
  qed
qed

lemma remove_control_spec: "remove_control s = spec_remove_controls s"
  unfolding remove_control_def spec_remove_controls_def
  by (rule filter_cong[OF refl]) (auto simp: is_control_def)

lemma strip_spec: "strip s = spec_trim s"
proof -
  let ?t = "dropWhile py_isspace s"
  let ?a = "length (takeWhile py_isspace s)"
  have t: "?t = drop ?a s" by (rule dropWhile_eq_drop)
  have 1: "strip s = take (length ?t - length (takeWhile py_isspace (rev ?t))) ?t"
  proof -
    have "dropWhile py_isspace (rev ?t) = drop (length (takeWhile py_isspace (rev ?t))) (rev ?t)"
      by (rule dropWhile_eq_drop)
    then have "strip s = rev (drop (length (takeWhile py_isspace (rev ?t))) (rev ?t))"
      by (simp only: strip_def)
    then show ?thesis by (simp add: rev_drop)
  qed
  show ?thesis
  proof (cases "?t = []")
    case True
    have "strip s = []" unfolding strip_def True by simp
    moreover have "drop ?a s = []" using True t by simp
    ultimately show ?thesis by (simp add: spec_trim_def Let_def)
  next
    case False
    then have h: "\<not> py_isspace (hd ?t)" by (rule hd_dropWhile)
    have "s = takeWhile py_isspace s @ ?t" by simp
    then have "rev s = rev ?t @ rev (takeWhile py_isspace s)" by (metis rev_append)
    moreover have "last (rev ?t) = hd ?t" "rev ?t \<noteq> []" using False by (simp_all add: last_rev)
    ultimately have "takeWhile py_isspace (rev s) = takeWhile py_isspace (rev ?t)"
      using h by (metis last_in_set takeWhile_append1)
    moreover have "length ?t = length s - ?a" using t by simp
    ultimately show ?thesis using 1 t by (simp add: spec_trim_def Let_def)
  qed
qed

lemma clean_diff_spec: "clean_diff x = (if isna x then [] else spec_sanitize (py_str x))"
proof -
  have "(\<lambda>c. c = 13 \<or> c = 10 \<or> c = 9) = is_crlftab" by (auto simp: is_crlftab_def)
  then show ?thesis
    by (simp add: clean_diff_def spec_sanitize_def strip_spec collapse_spaces_spec
        remove_control_spec sub_crlftab_spec)
qed

section \<open>The claims about the sanitizer\<close>

text \<open>
  C4. On every input \<open>clean_diff\<close> returns what the four steps of the specification
  return: the empty string on a missing input and otherwise the text of the input with every
  maximal run of CR/LF/tab replaced by a single space, the remaining control characters
  removed, every run of two or more spaces collapsed to one, and the ends trimmed. Hence
  its output holds no carriage return, line feed or tab and no control character of the C0
  range, of the C1 range or DEL; it holds no two spaces in a row, and it neither starts nor
  ends with white space; and a text that is clean already is returned as it is. Stage by
  stage: a maximal run of CR/LF/tab becomes one space, a control character is dropped
  without a replacement, and a maximal run of two or more spaces becomes one space. The
  input \<^verbatim>\<open>"fix bug\r\n\tline2"\<close> gives \<^verbatim>\<open>"fix bug line2"\<close>.
\<close>

theorem clean_diff_output:
  "clean_diff x = (if isna x then [] else spec_sanitize (py_str x))
   \<and> (\<forall>c\<in>set (clean_diff x). c \<noteq> 13 \<and> c \<noteq> 10 \<and> c \<noteq> 9 \<and> \<not> c \<le> 0x1F \<and> \<not> (0x7F \<le> c \<and> c \<le> 0x9F))
   \<and> \<not> sublist [32, 32] (clean_diff x)
   \<and> (clean_diff x \<noteq> [] \<longrightarrow>
        \<not> py_isspace (hd (clean_diff x)) \<and> \<not> py_isspace (last (clean_diff x)))
   \<and> ((\<forall>c\<in>set t. \<not> c \<le> 0x1F \<and> \<not> (0x7F \<le> c \<and> c \<le> 0x9F)) \<and> \<not> sublist [32, 32] t \<and>
        (t = [] \<or> (\<not> py_isspace (hd t) \<and> \<not> py_isspace (last t))) \<longrightarrow>
        clean_diff (Str t) = t)
   \<and> (run \<noteq> [] \<and> list_all is_crlftab run \<and> (pre = [] \<or> \<not> is_crlftab (last pre)) \<and>
        (post = [] \<or> \<not> is_crlftab (hd post)) \<longrightarrow>
        sub_crlftab (pre @ run @ post) = sub_crlftab pre @ [32] @ sub_crlftab post)
   \<and> (is_control k \<longrightarrow>
        remove_control (pre @ [k] @ post) = remove_control pre @ remove_control post)
   \<and> (2 \<le> length sp \<and> list_all (\<lambda>c. c = 32) sp \<and> (pre = [] \<or> last pre \<noteq> 32) \<and>
        (post = [] \<or> hd post \<noteq> 32) \<longrightarrow>
        collapse_spaces (pre @ sp @ post) = collapse_spaces pre @ [32] @ collapse_spaces post)
   \<and> clean_diff (Str (asc ''fix bug'' @ [13, 10, 9] @ asc ''line2'')) = asc ''fix bug line2''"
proof -
  have 0: "clean_diff x = (if isna x then [] else spec_sanitize (py_str x))"
    by (rule clean_diff_spec)
  have 1: "\<forall>c\<in>set (clean_diff x). c \<noteq> 13 \<and> c \<noteq> 10 \<and> c \<noteq> 9 \<and> \<not> c \<le> 0x1F \<and> \<not> (0x7F \<le> c \<and> c \<le> 0x9F)"
  proof
    fix c assume "c \<in> set (clean_diff x)"
    then have "\<not> is_control c" by (rule clean_diff_no_control)
    then show "c \<noteq> 13 \<and> c \<noteq> 10 \<and> c \<noteq> 9 \<and> \<not> c \<le> 0x1F \<and> \<not> (0x7F \<le> c \<and> c \<le> 0x9F)"
      by (auto simp: is_control_def)
  qed
  have 2: "\<not> sublist [32, 32] (clean_diff x)"
    using clean_diff_no_double[of x] by (simp add: double_space_sublist)
  have 3: "clean_diff x \<noteq> [] \<longrightarrow>
        \<not> py_isspace (hd (clean_diff x)) \<and> \<not> py_isspace (last (clean_diff x))"
    using clean_diff_ends by blast
  have 4: "run \<noteq> [] \<and> list_all is_crlftab run \<and> (pre = [] \<or> \<not> is_crlftab (last pre)) \<and>
        (post = [] \<or> \<not> is_crlftab (hd post)) \<longrightarrow>
        sub_crlftab (pre @ run @ post) = sub_crlftab pre @ [32] @ sub_crlftab post"
    by (simp add: sub_crlftab_append sub_crlftab_run)
  have 5: "is_control k \<longrightarrow>
        remove_control (pre @ [k] @ post) = remove_control pre @ remove_control post"
    by (simp add: remove_control_def)
  have 6: "2 \<le> length sp \<and> list_all (\<lambda>c. c = 32) sp \<and> (pre = [] \<or> last pre \<noteq> 32) \<and>
        (post = [] \<or> hd post \<noteq> 32) \<longrightarrow>
        collapse_spaces (pre @ sp @ post) = collapse_spaces pre @ [32] @ collapse_spaces post"
    by (simp add: collapse_append collapse_run)
  have 7: "clean_diff (Str (asc ''fix bug'' @ [13, 10, 9] @ asc ''line2'')) = asc ''fix bug line2''"
    by (simp add: clean_diff_def asc_def strip_def remove_control_def is_control_def
        is_crlftab_def py_isspace_def)
  have 8: "(\<forall>c\<in>set t. \<not> c \<le> 0x1F \<and> \<not> (0x7F \<le> c \<and> c \<le> 0x9F)) \<and> \<not> sublist [32, 32] t \<and>
        (t = [] \<or> (\<not> py_isspace (hd t) \<and> \<not> py_isspace (last t))) \<longrightarrow>
        clean_diff (Str t) = t"
  proof (intro impI, elim conjE)
    assume a: "\<forall>c\<in>set t. \<not> c \<le> 0x1F \<and> \<not> (0x7F \<le> c \<and> c \<le> 0x9F)"
      and b: "\<not> sublist [32, 32] t"
      and c: "t = [] \<or> (\<not> py_isspace (hd t) \<and> \<not> py_isspace (last t))"
    have "\<forall>c\<in>set t. \<not> is_control c" using a by (simp add: is_control_def)
    moreover have "\<not> double_space t" using b by (simp add: double_space_sublist)
    ultimately show "clean_diff (Str t) = t" using c by (rule clean_diff_fixed)
  qed
  from 0 1 2 3 4 5 6 7 8 show ?thesis by blast
qed

theorem clean_diff_output_witness:
  "clean_diff (Str [32, 97, 9, 10, 32, 32, 0, 98, 133]) = [97, 32, 98]
   \<and> spec_sanitize [32, 97, 9, 10, 32, 32, 0, 98, 133] = [97, 32, 98]
   \<and> set (clean_diff (Str [32, 97, 9, 10, 32, 32, 0, 98, 133])) = {97, 32, 98}
   \<and> \<not> sublist [32, 32] (clean_diff (Str [32, 97, 9, 10, 32, 32, 0, 98, 133]))
   \<and> \<not> py_isspace (hd (clean_diff (Str [32, 97, 9, 10, 32, 32, 0, 98, 133])))
   \<and> \<not> py_isspace (last (clean_diff (Str [32, 97, 9, 10, 32, 32, 0, 98, 133])))
   \<and> list_all (\<lambda>c. \<not> c \<le> 0x1F \<and> \<not> (0x7F \<le> c \<and> c \<le> 0x9F)) (asc ''hello'')
   \<and> \<not> sublist [32, 32] (asc ''hello'')
   \<and> \<not> py_isspace (hd (asc ''hello'')) \<and> \<not> py_isspace (last (asc ''hello''))
   \<and> clean_diff (Str (asc ''hello'')) = asc ''hello''
   \<and> sub_crlftab ([32, 97] @ [9, 10] @ [32, 32, 0, 98, 133])
       = sub_crlftab [32, 97] @ [32] @ sub_crlftab [32, 32, 0, 98, 133]
   \<and> remove_control ([32, 97] @ [0] @ [98]) = remove_control [32, 97] @ remove_control [98]
   \<and> collapse_spaces ([32, 97] @ [32, 32, 32] @ [98])
       = collapse_spaces [32, 97] @ [32] @ collapse_spaces [98]"
proof -
  have v: "clean_diff (Str [32, 97, 9, 10, 32, 32, 0, 98, 133]) = [97, 32, 98]"
    by (simp add: clean_diff_def strip_def remove_control_def is_control_def
        is_crlftab_def py_isspace_def)
  have h: "list_all (\<lambda>c. \<not> c \<le> 0x1F \<and> \<not> (0x7F \<le> c \<and> c \<le> 0x9F)) (asc ''hello'')"
    "\<not> sublist [32, 32] (asc ''hello'')"
    "\<not> py_isspace (hd (asc ''hello''))" "\<not> py_isspace (last (asc ''hello''))"
    by (simp_all add: asc_def py_isspace_def double_space_sublist[symmetric])
  note a = clean_diff_output [of "Str [32, 97, 9, 10, 32, 32, 0, 98, 133]" "asc ''hello''"
        "[9, 10]" "[32, 97]" "[32, 32, 0, 98, 133]" 0 "[32, 32, 32]"]
  note b = clean_diff_output [of "Str [32, 97, 9, 10, 32, 32, 0, 98, 133]" "asc ''hello''"
        "[9, 10]" "[32, 97]" "[98]" 0 "[32, 32, 32]"]
  have s: "spec_sanitize [32, 97, 9, 10, 32, 32, 0, 98, 133] = [97, 32, 98]"
    using a v by simp
  have f: "clean_diff (Str (asc ''hello'')) = asc ''hello''"
    using a h by (simp add: list_all_iff)
  show ?thesis
    using a b v s f h by (simp add: is_crlftab_def is_control_def)
qed

text \<open>
  C7. \<open>clean_diff\<close> is idempotent: cleaning the text it returned gives that text again.
\<close>

theorem clean_diff_idempotent: "clean_diff (Str (clean_diff x)) = clean_diff x"
proof (rule clean_diff_fixed)
  show "\<forall>c\<in>set (clean_diff x). \<not> is_control c" using clean_diff_no_control by blast
  show "\<not> double_space (clean_diff x)" by (rule clean_diff_no_double)
  show "clean_diff x = [] \<or> (\<not> py_isspace (hd (clean_diff x)) \<and> \<not> py_isspace (last (clean_diff x)))"
    using clean_diff_ends by blast
qed




section \<open>Properties of the keyword scan\<close>

lemma startswith_prefix: "startswith t k = prefix k t"
  by (induction t k rule: startswith.induct) auto

lemma py_in_sublist: "py_in k t = sublist k t"
  by (induction t) (auto simp: startswith_prefix sublist_Cons_right)

lemma py_in_iff: "py_in k t = (\<exists>ps ss. t = ps @ k @ ss)"
  by (simp add: py_in_sublist sublist_def)

lemma scan_keywords_one: "(scan_keywords ks t = 1) = (\<exists>k\<in>set ks. py_in k t)"
  by (induction ks) auto

lemma scan_keywords_zero: "(scan_keywords ks t = 0) = (\<not> (\<exists>k\<in>set ks. py_in k t))"
  by (induction ks) auto

lemma scan_keywords_cases: "scan_keywords ks t = 0 \<or> scan_keywords ks t = 1"
  by (induction ks) auto

lemma keywords_lower_eq: "keywords_lower U = security_keywords"
  by (simp add: keywords_lower_def security_keywords_def asc_def py_lower_def ascii_lower_def)

lemma keywords_shape: "list_all (\<lambda>k. k \<noteq> [] \<and> last k \<noteq> 32 \<and> hd k \<noteq> 32) security_keywords"
  by (simp add: security_keywords_def asc_def)

lemma sublist_snoc_other:
  assumes "k \<noteq> []" "last k \<noteq> c"
  shows "sublist k (t @ [c]) = sublist k t"
proof
  assume "sublist k (t @ [c])"
  then obtain ps ss where e: "t @ [c] = ps @ k @ ss" by (auto simp: sublist_def)
  show "sublist k t"
  proof (cases ss rule: rev_cases)
    case Nil
    with e assms show ?thesis by (metis append_Nil2 last_appendR last_snoc)
  next
    case (snoc ss' x)
    with e have "t @ [c] = (ps @ k @ ss') @ [x]" by simp
    then have "t = ps @ k @ ss'" by (simp only: append1_eq_conv)
    then show ?thesis by (auto simp: sublist_def)
  qed
next
  assume "sublist k t"
  then show "sublist k (t @ [c])" by (meson sublist_order.order_trans prefix_imp_sublist prefixI)
qed

lemma py_lower_keyword: "k \<in> set security_keywords \<Longrightarrow> py_lower U k = k"
proof -
  have "map (py_lower U) security_keywords = map (\<lambda>k. k) security_keywords"
    using keywords_lower_eq[of U] by (simp add: keywords_lower_def)
  then have "\<forall>k\<in>set security_keywords. py_lower U k = k" by (simp only: map_eq_conv)
  then show "k \<in> set security_keywords \<Longrightarrow> py_lower U k = k" by blast
qed

lemma flag_title_only:
  "flag_text U [''TITLE''] [Str X] = py_lower U X @ [32]"
  by (simp add: flag_text_def row_get_def)

lemma has_flag_title:
  "(has_security_flag U [''TITLE''] [Str X] = 1)
     = (\<exists>k\<in>set security_keywords. sublist (py_lower U k) (py_lower U X))"
proof -
  have "\<And>k. k \<in> set security_keywords \<Longrightarrow> sublist k (py_lower U X @ [32]) = sublist k (py_lower U X)"
    using keywords_shape by (intro sublist_snoc_other) (auto simp: list_all_iff)
  moreover have "\<And>k. k \<in> set security_keywords \<Longrightarrow> py_lower U k = k"
    by (rule py_lower_keyword)
  ultimately show ?thesis
    by (simp add: has_security_flag_def flag_title_only scan_keywords_one keywords_lower_eq py_in_sublist)
qed

section \<open>Properties of renaming, selecting and applying\<close>

lemma rect_rows: "wf_frame df \<Longrightarrow> r \<in> set (rows df) \<Longrightarrow> length r = length (columns df)"
  by (simp add: wf_frame_def list_all_iff)

lemma filter_label: "distinct cols \<Longrightarrow> n \<in> set cols \<Longrightarrow> filter (\<lambda>c. c = n) cols = [n]"
  by (induction cols) (auto simp: filter_empty_conv)

lemma filter_zip_label:
  "distinct cols \<Longrightarrow> n \<in> set cols \<Longrightarrow> length r = length cols \<Longrightarrow>
   map snd (filter (\<lambda>(c, v). c = n) (zip cols r)) = [row_get cols r n]"
proof (induction cols arbitrary: r)
  case Nil
  then show ?case by simp
next
  case (Cons a cols)
  then obtain x xs where r: "r = x # xs" by (cases r) auto
  show ?case
  proof (cases "a = n")
    case True
    with Cons.prems have "n \<notin> set cols" by simp
    then have "filter (\<lambda>(c, v). c = n) (zip cols xs) = []"
      by (auto simp: filter_empty_conv dest: set_zip_leftD)
    with True r show ?thesis by (simp add: row_get_def)
  next
    case False
    with Cons r show ?thesis by (simp add: row_get_def)
  qed
qed

lemma select_cases:
  "select order df =
     (if set order \<subseteq> set (columns df)
      then Inr \<lparr>columns = concat (map (\<lambda>n. filter (\<lambda>c. c = n) (columns df)) order),
                rows = map (\<lambda>r. concat (map (\<lambda>n. map snd (filter (\<lambda>(c, v). c = n)
                                (zip (columns df) r))) order)) (rows df)\<rparr>
      else Inl (KeyError (filter (\<lambda>n. n \<notin> set (columns df)) order)))"
  by (auto simp: select_def Let_def filter_empty_conv)

lemma select_wf:
  assumes "wf_frame df" "set order \<subseteq> set (columns df)"
  shows "select order df =
     Inr \<lparr>columns = order, rows = map (\<lambda>r. map (row_get (columns df) r) order) (rows df)\<rparr>"
proof -
  have d: "distinct (columns df)" using assms(1) by (simp add: wf_frame_def)
  have 1: "concat (map (\<lambda>n. filter (\<lambda>c. c = n) (columns df)) order) = order"
    using assms(2)
  proof (induction order)
    case (Cons n ns)
    then show ?case using filter_label[OF d, of n] by simp
  qed simp
  have 2: "concat (map (\<lambda>n. map snd (filter (\<lambda>(c, v). c = n) (zip (columns df) r))) order)
             = map (row_get (columns df) r) order" if "r \<in> set (rows df)" for r
  proof -
    have l: "length r = length (columns df)" using assms(1) that by (rule rect_rows)
    show ?thesis using assms(2)
    proof (induction order)
      case (Cons n ns)
      then show ?case using filter_zip_label[OF d _ l, of n] by simp
    qed simp
  qed
  show ?thesis using assms(2) 1 2 by (simp add: select_cases cong: map_cong)
qed

lemma select_missing:
  assumes "n \<in> set order" "n \<notin> set (columns df)"
  shows "\<exists>ms. select order df = Inl (KeyError ms) \<and> n \<in> set ms \<and> set ms \<subseteq> set order - set (columns df)"
  using assms by (auto simp: select_cases)

lemma select_fails_iff: "(\<exists>e. select order df = Inl e) = (\<exists>n\<in>set order. n \<notin> set (columns df))"
  by (auto simp: select_cases)

lemma columns_rename [simp]: "columns (rename m df) = map (rename_label m) (columns df)"
  by (simp add: rename_def)

lemma rows_rename [simp]: "rows (rename m df) = rows df"
  by (simp add: rename_def)

lemma map_of_zip_update:
  "length r = length cols \<Longrightarrow>
   map_of (zip cols (map (\<lambda>(c, v). g c v) (zip cols r))) k = map_option (g k) (map_of (zip cols r) k)"
proof (induction cols arbitrary: r)
  case Nil
  then show ?case by simp
next
  case (Cons a cols)
  then obtain x xs where "r = x # xs" by (cases r) auto
  with Cons show ?case by simp
qed

lemma row_get_update:
  assumes "length r = length cols" "k \<in> set cols"
  shows "row_get cols (map (\<lambda>(c, v). if c = n then f v else v) (zip cols r)) k
           = (if k = n then f (row_get cols r k) else row_get cols r k)"
proof -
  have "k \<in> dom (map_of (zip cols r))" using assms by simp
  then obtain v where "map_of (zip cols r) k = Some v" by blast
  then show ?thesis
    using map_of_zip_update[OF assms(1), of "\<lambda>c v. if c = n then f v else v" k]
    by (auto simp: row_get_def)
qed

lemma apply_column_missing: "n \<notin> set (columns df) \<Longrightarrow> apply_column n f df = Inl (KeyError [n])"
proof -
  assume "n \<notin> set (columns df)"
  then have "filter (\<lambda>c. c = n) (columns df) = []" by (auto simp: filter_empty_conv)
  then show ?thesis unfolding apply_column_def by simp
qed

lemma apply_column_distinct:
  assumes "distinct (columns df)" "n \<in> set (columns df)"
  shows "apply_column n f df =
     Inr (df\<lparr>rows := map (\<lambda>r. map (\<lambda>(c, v). if c = n then f v else v) (zip (columns df) r)) (rows df)\<rparr>)"
proof -
  have "filter (\<lambda>c. c = n) (columns df) = [n]" using assms by (rule filter_label)
  then show ?thesis unfolding apply_column_def by simp
qed

lemma apply_column_fails_or_keeps:
  "(\<exists>e. apply_column n f df = Inl e) \<or> (\<exists>out. apply_column n f df = Inr out \<and> columns out = columns df)"
proof (cases "filter (\<lambda>c. c = n) (columns df)")
  case Nil
  then show ?thesis unfolding apply_column_def by simp
next
  case (Cons a as)
  then show ?thesis unfolding apply_column_def by (cases as) auto
qed

lemma select_rename_missing:
  assumes "n \<in> set order" "n \<notin> set (map (rename_label m) (columns df))"
  shows "\<exists>ms. select order (rename m df) = Inl (KeyError ms) \<and> n \<in> set ms"
  using select_missing[of n order "rename m df"] assms by auto

lemma produce_task4_missing:
  assumes "n \<in> set task4_order" "n \<notin> set (map (rename_label task4_rename) (columns df))"
  shows "\<exists>e. produce_task4 df = Inl e"
proof -
  let ?R = "rename task4_rename df"
  let ?f = "\<lambda>v. Str (clean_diff v)"
  from apply_column_fails_or_keeps[of "''PRDIFF''" ?f ?R]
  show ?thesis
  proof
    assume "\<exists>e. apply_column ''PRDIFF'' ?f ?R = Inl e"
    then show ?thesis by (auto simp: produce_task4_def)
  next
    assume "\<exists>out. apply_column ''PRDIFF'' ?f ?R = Inr out \<and> columns out = columns ?R"
    then obtain out where o: "apply_column ''PRDIFF'' ?f ?R = Inr out" "columns out = columns ?R"
      by blast
    then have "n \<notin> set (columns out)" using assms(2) by simp
    then obtain ms where "select task4_order out = Inl (KeyError ms)"
      using select_missing[OF assms(1)] by blast
    with o show ?thesis by (simp add: produce_task4_def)
  qed
qed

lemma produce_task4_missing_key:
  assumes "n \<in> set task4_order" "n \<notin> set (map (rename_label task4_rename) (columns df))"
    "distinct (map (rename_label task4_rename) (columns df))"
  shows "\<exists>ms. produce_task4 df = Inl (KeyError ms) \<and> ms \<noteq> [] \<and>
           set ms \<subseteq> set task4_order - set (map (rename_label task4_rename) (columns df))"
proof -
  let ?R = "rename task4_rename df"
  let ?f = "\<lambda>v. Str (clean_diff v)"
  show ?thesis
  proof (cases "''PRDIFF'' \<in> set (columns ?R)")
    case False
    then have "apply_column ''PRDIFF'' ?f ?R = Inl (KeyError [''PRDIFF''])"
      by (rule apply_column_missing)
    moreover have "''PRDIFF'' \<in> set task4_order" by (simp add: task4_order_def)
    ultimately show ?thesis using False by (simp add: produce_task4_def)
  next
    case True
    have d: "distinct (columns ?R)" using assms(3) by simp
    have a: "apply_column ''PRDIFF'' ?f ?R =
       Inr (?R\<lparr>rows := map (\<lambda>r. map (\<lambda>(c, v). if c = ''PRDIFF'' then ?f v else v) (zip (columns ?R) r)) (rows ?R)\<rparr>)"
      using d True by (rule apply_column_distinct)
    let ?out = "?R\<lparr>rows := map (\<lambda>r. map (\<lambda>(c, v). if c = ''PRDIFF'' then ?f v else v) (zip (columns ?R) r)) (rows ?R)\<rparr>"
    have "n \<notin> set (columns ?out)" using assms(2) by simp
    from select_missing[OF assms(1) this] obtain ms where
      "select task4_order ?out = Inl (KeyError ms)" "n \<in> set ms"
      "set ms \<subseteq> set task4_order - set (columns ?out)" by blast
    then show ?thesis using a by (auto simp: produce_task4_def)
  qed
qed

lemma select_success:
  assumes "select order df = Inr out" "wf_frame df"
  shows "columns out = order \<and> rows out = map (\<lambda>r. map (row_get (columns df) r) order) (rows df)"
proof -
  have "set order \<subseteq> set (columns df)" using assms(1) by (auto simp: select_cases split: if_splits)
  from select_wf[OF assms(2) this] assms(1) show ?thesis by auto
qed

lemma produce_task4_success:
  assumes "produce_task4 df = Inr out" "wf_frame (rename task4_rename df)"
  shows "columns out = task4_order \<and>
         rows out = map (\<lambda>r. map (\<lambda>n. if n = ''PRDIFF''
                        then Str (clean_diff (row_get (map (rename_label task4_rename) (columns df)) r n))
                        else row_get (map (rename_label task4_rename) (columns df)) r n) task4_order) (rows df)"
proof -
  let ?R = "rename task4_rename df"
  let ?f = "\<lambda>v. Str (clean_diff v)"
  let ?u = "\<lambda>r. map (\<lambda>(c, v). if c = ''PRDIFF'' then ?f v else v) (zip (columns ?R) r)"
  let ?out = "?R\<lparr>rows := map ?u (rows ?R)\<rparr>"
  have d: "distinct (columns ?R)" using assms(2) by (simp add: wf_frame_def)
  have p: "''PRDIFF'' \<in> set (columns ?R)"
  proof (rule ccontr)
    assume "''PRDIFF'' \<notin> set (columns ?R)"
    then have "apply_column ''PRDIFF'' ?f ?R = Inl (KeyError [''PRDIFF''])"
      by (rule apply_column_missing)
    with assms(1) show False by (simp add: produce_task4_def)
  qed
  have a: "apply_column ''PRDIFF'' ?f ?R = Inr ?out" using d p by (rule apply_column_distinct)
  with assms(1) have s: "select task4_order ?out = Inr out" by (simp add: produce_task4_def)
  have len: "\<And>r. r \<in> set (rows ?R) \<Longrightarrow> length r = length (columns ?R)"
    using assms(2) by (rule rect_rows)
  have w: "wf_frame ?out" using d len by (simp add: wf_frame_def list_all_iff)
  have sub: "set task4_order \<subseteq> set (columns ?R)"
    using s by (auto simp: select_cases split: if_splits)
  from select_success[OF s w] have c: "columns out = task4_order"
    and r: "rows out = map (\<lambda>r. map (row_get (columns ?R) (?u r)) task4_order) (rows ?R)"
    by (simp_all add: comp_def)
  have "map (row_get (columns ?R) (?u r)) task4_order
          = map (\<lambda>n. if n = ''PRDIFF'' then ?f (row_get (columns ?R) r n) else row_get (columns ?R) r n) task4_order"
    if "r \<in> set (rows ?R)" for r
  proof (rule map_cong[OF refl])
    fix n assume "n \<in> set task4_order"
    then have "n \<in> set (columns ?R)" using sub by blast
    from row_get_update[OF len[OF that] this, of "''PRDIFF''" ?f]
    show "row_get (columns ?R) (?u r) n = (if n = ''PRDIFF'' then ?f (row_get (columns ?R) r n) else row_get (columns ?R) r n)"
      by simp
  qed
  with r have "rows out = map (\<lambda>r. map (\<lambda>n. if n = ''PRDIFF'' then ?f (row_get (columns ?R) r n) else row_get (columns ?R) r n) task4_order) (rows ?R)"
    by (simp cong: map_cong)
  with c show ?thesis by simp
qed

section \<open>Properties of the left join\<close>

lemma merge_left_success:
  assumes "merge_left L R lk rk sfx = Inr M"
  shows "lk \<in> set (columns L) \<and> rk \<in> set (columns R) \<and>
         columns M = columns L @ merge_labels (columns L) (columns R) sfx \<and>
         rows M = concat (map (join_row L R lk rk) (rows L))"
  using assms unfolding merge_left_def by (auto split: if_splits)

lemma length_join_row: "length (join_row L R lk rk l) = max 1 (length (matching_rows L R lk rk l))"
  by (cases "matching_rows L R lk rk l") (simp_all add: join_row_def)

lemma join_row_rows:
  "r \<in> set (join_row L R lk rk l) \<Longrightarrow>
   \<exists>x. r = l @ x \<and> (x = replicate (length (columns R)) NaN \<or> x \<in> set (rows R))"
proof (cases "matching_rows L R lk rk l")
  case Nil
  assume "r \<in> set (join_row L R lk rk l)"
  with Nil show ?thesis by (simp add: join_row_def)
next
  case (Cons m ms)
  assume "r \<in> set (join_row L R lk rk l)"
  with Cons obtain x where "r = l @ x" "x \<in> set (matching_rows L R lk rk l)"
    by (auto simp: join_row_def)
  then show ?thesis by (auto simp: matching_rows_def)
qed

lemma length_merge_labels [simp]: "length (merge_labels a b sfx) = length b"
  by (simp add: merge_labels_def)

lemma merged_rect:
  assumes "merge_left L R lk rk sfx = Inr M" "wf_frame L" "wf_frame R" "r \<in> set (rows M)"
  shows "length r = length (columns M)"
proof -
  from merge_left_success[OF assms(1)] have
    c: "columns M = columns L @ merge_labels (columns L) (columns R) sfx" and
    rs: "rows M = concat (map (join_row L R lk rk) (rows L))" by auto
  from assms(4) rs obtain l where l: "l \<in> set (rows L)" "r \<in> set (join_row L R lk rk l)" by auto
  from join_row_rows[OF l(2)] obtain x where
    x: "r = l @ x" "x = replicate (length (columns R)) NaN \<or> x \<in> set (rows R)" by blast
  have "length l = length (columns L)" using assms(2) l(1) by (rule rect_rows)
  moreover have "length x = length (columns R)" using x(2) rect_rows[OF assms(3)] by auto
  ultimately show ?thesis using c x(1) by simp
qed

lemma row_get_left:
  assumes "length l = length cols" "n \<in> set cols"
  shows "row_get (cols @ cols2) (l @ x) n = row_get cols l n"
proof -
  have "n \<in> dom (map_of (zip cols l))" using assms by simp
  then show ?thesis using assms(1) by (auto simp: row_get_def map_add_dom_app_simps)
qed

lemma map_of_zip_absent: "n \<notin> set cols \<Longrightarrow> map_of (zip cols r) n = None"
  by (auto simp: map_of_eq_None_iff dest: set_zip_leftD)

lemma row_get_absent: "n \<notin> set cols \<Longrightarrow> row_get cols r n = PyNone"
  by (simp add: row_get_def map_of_zip_absent)

lemma row_get_last:
  assumes "length r = length cols" "n \<notin> set cols"
  shows "row_get (cols @ [n]) (r @ [v]) n = v"
  using assms(1) by (simp add: row_get_def map_add_def map_of_zip_absent[OF assms(2)])

lemma row_get_other:
  assumes "length r = length cols" "k \<noteq> n"
  shows "row_get (cols @ [n]) (r @ [v]) k = row_get cols r k"
proof (cases "map_of (zip cols r) k")
  case None
  show ?thesis using assms by (simp add: row_get_def map_add_def None)
next
  case (Some a)
  show ?thesis using assms by (simp add: row_get_def map_add_def Some)
qed

lemma set_column_rows:
  assumes "\<And>r. r \<in> set (rows df) \<Longrightarrow> length r = length (columns df)" "length vs = length (rows df)"
  shows "length (rows (set_column n vs df)) = length (rows df)"
    and "map (\<lambda>r. row_get (columns (set_column n vs df)) r n) (rows (set_column n vs df)) = vs"
    and "k \<noteq> n \<Longrightarrow> map (\<lambda>r. row_get (columns (set_column n vs df)) r k) (rows (set_column n vs df))
           = map (\<lambda>r. row_get (columns df) r k) (rows df)"
    and "set (columns (set_column n vs df)) = insert n (set (columns df))"
proof -
  show "length (rows (set_column n vs df)) = length (rows df)"
    using assms(2) by (simp add: set_column_def)
  show "set (columns (set_column n vs df)) = insert n (set (columns df))"
    by (auto simp: set_column_def)
  have len: "\<And>i. i < length (rows df) \<Longrightarrow> length (rows df ! i) = length (columns df)"
    using assms(1) by simp
  show "map (\<lambda>r. row_get (columns (set_column n vs df)) r n) (rows (set_column n vs df)) = vs"
  proof (cases "n \<in> set (columns df)")
    case True
    have "row_get (columns df) (map (\<lambda>(c, x). if c = n then vs ! i else x) (zip (columns df) (rows df ! i))) n = vs ! i"
      if "i < length (rows df)" for i
      using row_get_update[OF len[OF that] True, of n "\<lambda>_. vs ! i"] by simp
    with True assms(2) show ?thesis
      by (simp add: set_column_def list_eq_iff_nth_eq)
  next
    case False
    with assms(2) len show ?thesis
      by (simp add: set_column_def list_eq_iff_nth_eq row_get_last)
  qed
  show "map (\<lambda>r. row_get (columns (set_column n vs df)) r k) (rows (set_column n vs df))
           = map (\<lambda>r. row_get (columns df) r k) (rows df)" if kn: "k \<noteq> n"
  proof (cases "n \<in> set (columns df)")
    case True
    have "row_get (columns df) (map (\<lambda>(c, x). if c = n then vs ! i else x) (zip (columns df) (rows df ! i))) k
            = row_get (columns df) (rows df ! i) k"
      if "i < length (rows df)" for i
    proof (cases "k \<in> set (columns df)")
      case True
      from row_get_update[OF len[OF that] True, of n "\<lambda>_. vs ! i"] kn show ?thesis by simp
    next
      case False
      then show ?thesis by (simp add: row_get_absent)
    qed
    with True assms(2) show ?thesis
      by (simp add: set_column_def list_eq_iff_nth_eq)
  next
    case False
    with assms(2) len kn show ?thesis
      by (simp add: set_column_def list_eq_iff_nth_eq row_get_other)
  qed
qed

lemma get_column_cases:
  "get_column n df = Inr vs \<Longrightarrow> n \<in> set (columns df) \<and> vs = map (\<lambda>r. row_get (columns df) r n) (rows df)"
  by (auto simp: get_column_def split: if_splits)

lemma rows5:
  "map (\<lambda>(i, a, t, c, s). [i, a, t, c, s])
     (zip (map f1 xs) (zip (map f2 xs) (zip (map f3 xs) (zip (map f4 xs) (map f5 xs)))))
     = map (\<lambda>x. [f1 x, f2 x, f3 x, f4 x, f5 x]) xs"
  by (induction xs) simp_all

lemma produce_task5_success:
  assumes "produce_task5 U df1 df3 = Inr out" "wf_frame df1" "wf_frame df3"
  shows "\<exists>M. merge_left df1 df3 ''ID'' ''PRID'' ''_task3'' = Inr M \<and>
          columns out = [''ID'', ''AGENT'', ''TYPE'', ''CONFIDENCE'', ''SECURITY''] \<and>
          length (rows out) = length (rows M) \<and>
          map (\<lambda>r. row_get (columns out) r ''SECURITY'') (rows out)
            = map (\<lambda>r. Num (has_security_flag U (columns M) r)) (rows M) \<and>
          map (\<lambda>r. row_get (columns out) r ''ID'') (rows out)
            = map (\<lambda>r. row_get (columns M) r ''ID'') (rows M)"
proof -
  from assms(1) obtain M where m: "merge_left df1 df3 ''ID'' ''PRID'' ''_task3'' = Inr M"
    by (auto simp: produce_task5_def split: sum.splits)
  let ?flags = "map (\<lambda>r. Num (has_security_flag U (columns M) r)) (rows M)"
  let ?M' = "set_column ''SECURITY'' ?flags M"
  let ?g = "\<lambda>k r. row_get (columns ?M') r k"
  have e: "produce_task5 U df1 df3 =
     (case get_column ''ID'' ?M' of Inl e \<Rightarrow> Inl e | Inr ids \<Rightarrow>
       (case get_column ''AGENTNAME'' ?M' of Inl e \<Rightarrow> Inl e | Inr agents \<Rightarrow>
       (case get_column ''PRTYPE'' ?M' of Inl e \<Rightarrow> Inl e | Inr types \<Rightarrow>
       (case get_column ''CONFIDENCE'' ?M' of Inl e \<Rightarrow> Inl e | Inr confs \<Rightarrow>
       (case get_column ''SECURITY'' ?M' of Inl e \<Rightarrow> Inl e | Inr secs \<Rightarrow>
          Inr \<lparr>columns = [''ID'', ''AGENT'', ''TYPE'', ''CONFIDENCE'', ''SECURITY''],
               rows = map (\<lambda>(i, a, t, c, s). [i, a, t, c, s])
                        (zip ids (zip agents (zip types (zip confs secs))))\<rparr>)))))"
    using m by (simp add: produce_task5_def Let_def)
  from assms(1) obtain ids agents types confs secs where
    g: "get_column ''ID'' ?M' = Inr ids" "get_column ''AGENTNAME'' ?M' = Inr agents"
       "get_column ''PRTYPE'' ?M' = Inr types" "get_column ''CONFIDENCE'' ?M' = Inr confs"
       "get_column ''SECURITY'' ?M' = Inr secs" and
    o: "out = \<lparr>columns = [''ID'', ''AGENT'', ''TYPE'', ''CONFIDENCE'', ''SECURITY''],
               rows = map (\<lambda>(i, a, t, c, s). [i, a, t, c, s])
                        (zip ids (zip agents (zip types (zip confs secs))))\<rparr>"
    unfolding e by (auto split: sum.splits)
  from g have v: "ids = map (?g ''ID'') (rows ?M')" "agents = map (?g ''AGENTNAME'') (rows ?M')"
    "types = map (?g ''PRTYPE'') (rows ?M')" "confs = map (?g ''CONFIDENCE'') (rows ?M')"
    "secs = map (?g ''SECURITY'') (rows ?M')"
    by (auto dest: get_column_cases)
  have r: "rows out = map (\<lambda>r. [?g ''ID'' r, ?g ''AGENTNAME'' r, ?g ''PRTYPE'' r,
                                 ?g ''CONFIDENCE'' r, ?g ''SECURITY'' r]) (rows ?M')"
    unfolding o v by (simp only: rows5 frame.simps)
  have c: "columns out = [''ID'', ''AGENT'', ''TYPE'', ''CONFIDENCE'', ''SECURITY'']"
    by (simp add: o)
  have rect: "\<And>r. r \<in> set (rows M) \<Longrightarrow> length r = length (columns M)"
    using merged_rect[OF m assms(2,3)] by blast
  have lf: "length ?flags = length (rows M)" by simp
  note sc = set_column_rows[where n="''SECURITY''" and df=M, OF rect lf]
  have sec: "map (\<lambda>r. row_get (columns out) r ''SECURITY'') (rows out) = ?flags"
    unfolding c r using sc(2) by (simp add: row_get_def comp_def)
  have ident: "map (\<lambda>r. row_get (columns out) r ''ID'') (rows out)
                 = map (\<lambda>r. row_get (columns M) r ''ID'') (rows M)"
    unfolding c r using sc(3)[where k="''ID''"] by (simp add: row_get_def comp_def)
  have len: "length (rows out) = length (rows M)" unfolding r using sc(1) by simp
  from m c len sec ident show ?thesis by simp
qed

lemma fan_out_join_row: "length (join_row L R ''ID'' ''PRID'' l) = fan_out L R l"
  by (simp add: length_join_row fan_out_def)

lemma merged_map_left:
  assumes "merge_left L R ''ID'' ''PRID'' sfx = Inr M"
    "\<And>l x. l \<in> set (rows L) \<Longrightarrow> F (l @ x) = G l"
  shows "map F (rows M) = concat (map (\<lambda>l. replicate (fan_out L R l) (G l)) (rows L))"
proof -
  have rs: "rows M = concat (map (join_row L R ''ID'' ''PRID'') (rows L))"
    using merge_left_success[OF assms(1)] by simp
  have "map F (join_row L R ''ID'' ''PRID'' l) = replicate (fan_out L R l) (G l)"
    if "l \<in> set (rows L)" for l
  proof -
    have "map F (join_row L R ''ID'' ''PRID'' l) = map (\<lambda>_. G l) (join_row L R ''ID'' ''PRID'' l)"
    proof (rule map_cong[OF refl])
      fix r assume "r \<in> set (join_row L R ''ID'' ''PRID'' l)"
      then obtain x where "r = l @ x" using join_row_rows by blast
      then show "F r = G l" using assms(2)[OF that] by simp
    qed
    then show ?thesis by (simp add: map_replicate_const fan_out_join_row)
  qed
  then show ?thesis unfolding rs by (simp add: map_concat cong: map_cong)
qed

lemma merged_length:
  assumes "merge_left L R ''ID'' ''PRID'' sfx = Inr M"
  shows "length (rows M) = sum_list (map (fan_out L R) (rows L))"
proof -
  have "rows M = concat (map (join_row L R ''ID'' ''PRID'') (rows L))"
    using merge_left_success[OF assms(1)] by simp
  then show ?thesis by (simp add: length_concat comp_def fan_out_join_row)
qed

lemma fan_out_pos: "1 \<le> fan_out L R l"
  by (simp add: fan_out_def)

lemma sum_fan_out_ge: "length ls \<le> sum_list (map (fan_out L R) ls)"
proof (induction ls)
  case (Cons l ls)
  then show ?case using fan_out_pos[of L R l] by simp
qed simp

lemma sum_fan_out_eq:
  "\<forall>l\<in>set ls. length (matching_rows L R ''ID'' ''PRID'' l) \<le> 1 \<Longrightarrow>
   sum_list (map (fan_out L R) ls) = length ls"
  by (induction ls) (auto simp: fan_out_def)

lemma flag_left:
  assumes "length l = length cols" "''TITLE'' \<in> set cols" "''BODYSTRING'' \<in> set cols"
  shows "has_security_flag U (cols @ cols2) (l @ x) = has_security_flag U cols l"
  using assms by (simp add: has_security_flag_def flag_text_def row_get_left)

section \<open>The example tables, evaluated\<close>

lemma ex_wf_pr: "wf_frame pr_example"
  by code_simp

lemma ex_wf_cls: "wf_frame cls_none" "wf_frame cls_once" "wf_frame cls_twice"
  by code_simp+

lemma ex_task5_none: "produce_task5 id pr_example cls_none = Inr out_none"
  by code_simp

lemma ex_task5_once: "produce_task5 id pr_example cls_once = Inr out_once"
  by code_simp

lemma ex_task5_twice: "produce_task5 id pr_example cls_twice = Inr out_twice"
  by code_simp

lemma ex_merge_twice: "merge_left pr_example cls_twice ''ID'' ''PRID'' ''_task3'' = Inr merged_twice"
  by code_simp

lemma ex_fan_out:
  "map (fan_out pr_example cls_twice) (rows pr_example) = [2, 1]"
  "map (fan_out pr_example cls_once) (rows pr_example) = [1, 1]"
  "map (fan_out pr_example cls_none) (rows pr_example) = [1, 1]"
  by code_simp+

lemma ex_task1: "produce_task1 raw_pr_example = Inr task1_out_example"
  by code_simp

lemma ex_task4: "produce_task4 commit_example = Inr task4_out_example"
  by code_simp

lemma ex_wf_raw:
  "wf_frame (rename task1_rename raw_pr_example)" "wf_frame (rename task4_rename commit_example)"
  by code_simp+

lemma ex_scenario_d:
  "select [''ID'', ''MISSING''] (rename [(''id'', ''ID'')] id_only_example) = Inl (KeyError [''MISSING''])"
  by code_simp

lemma ex_security_columns:
  "map (\<lambda>r. row_get (columns out_none) r ''SECURITY'') (rows out_none) = [Num 1, Num 0]"
  "map (\<lambda>r. row_get (columns out_once) r ''SECURITY'') (rows out_once) = [Num 1, Num 0]"
  "map (\<lambda>r. row_get (columns out_twice) r ''SECURITY'') (rows out_twice) = [Num 1, Num 1, Num 0]"
  by code_simp+

lemma ex_id_columns:
  "map (\<lambda>r. row_get (columns out_once) r ''ID'') (rows out_once) = [Num 1, Num 5]"
  "map (\<lambda>r. row_get (columns out_twice) r ''ID'') (rows out_twice) = [Num 1, Num 1, Num 5]"
  "map (\<lambda>l. row_get (columns pr_example) l ''ID'') (rows pr_example) = [Num 1, Num 5]"
  by code_simp+

lemma ex_lengths:
  "length (rows pr_example) = 2" "length (rows out_none) = 2" "length (rows out_once) = 2"
  "length (rows out_twice) = 3"
  by (simp_all add: pr_example_def out_none_def out_once_def out_twice_def)

lemma ex_matches_once:
  "list_all (\<lambda>l. length (matching_rows pr_example cls_once ''ID'' ''PRID'' l) \<le> 1) (rows pr_example)"
  by code_simp

lemma ex_scans:
  "scan_keywords (keywords_lower id) (asc ''a cross site b'') = 1"
  "scan_keywords (keywords_lower id) (asc ''cross the site'') = 0"
  "has_security_flag id [''TITLE''] [Str (asc ''Dosage'')] = 1"
  by code_simp+

section \<open>The claims about the column projections\<close>

text \<open>
  C5. A projection fails, with the \<^verbatim>\<open>KeyError\<close> of pandas, when a label of its output
  order is the label of no column after renaming; it returns no table with an empty column
  in that place. This holds of selecting after renaming in general, hence of tasks 1 to 3,
  which are exactly that, and of task 4, where the error may already come from reading the
  \<^verbatim>\<open>PRDIFF\<close> column. Selecting \<^verbatim>\<open>["ID", "MISSING"]\<close> after renaming \<^verbatim>\<open>id\<close> to
  \<^verbatim>\<open>ID\<close> fails on a table that has the column \<^verbatim>\<open>id\<close> only.
\<close>

theorem projection_missing_column_fails:
  "produce_task1 df = select task1_order (rename task1_rename df)
   \<and> produce_task2 df = select task2_order (rename task2_rename df)
   \<and> produce_task3 df = select task3_order (rename task3_rename df)
   \<and> ((\<exists>e. select order (rename m df) = Inl e)
        = (\<exists>n\<in>set order. n \<notin> set (map (rename_label m) (columns df))))
   \<and> (n \<in> set order \<and> n \<notin> set (map (rename_label m) (columns df)) \<longrightarrow>
        (\<exists>ms. select order (rename m df) = Inl (KeyError ms) \<and> n \<in> set ms))
   \<and> (n \<in> set task4_order \<and> n \<notin> set (map (rename_label task4_rename) (columns df)) \<longrightarrow>
        (\<exists>e. produce_task4 df = Inl e))
   \<and> (n \<in> set task4_order \<and> n \<notin> set (map (rename_label task4_rename) (columns df)) \<and>
        distinct (map (rename_label task4_rename) (columns df)) \<longrightarrow>
        (\<exists>ms. produce_task4 df = Inl (KeyError ms) \<and> ms \<noteq> [] \<and>
              set ms \<subseteq> set task4_order - set (map (rename_label task4_rename) (columns df))))"
proof -
  have 1: "(\<exists>e. select order (rename m df) = Inl e)
        = (\<exists>n\<in>set order. n \<notin> set (map (rename_label m) (columns df)))"
    using select_fails_iff[of order "rename m df"] by simp
  have 2: "n \<in> set order \<and> n \<notin> set (map (rename_label m) (columns df)) \<longrightarrow>
        (\<exists>ms. select order (rename m df) = Inl (KeyError ms) \<and> n \<in> set ms)"
    using select_rename_missing by blast
  have 3: "n \<in> set task4_order \<and> n \<notin> set (map (rename_label task4_rename) (columns df)) \<longrightarrow>
        (\<exists>e. produce_task4 df = Inl e)"
    using produce_task4_missing by blast
  have 4: "n \<in> set task4_order \<and> n \<notin> set (map (rename_label task4_rename) (columns df)) \<and>
        distinct (map (rename_label task4_rename) (columns df)) \<longrightarrow>
        (\<exists>ms. produce_task4 df = Inl (KeyError ms) \<and> ms \<noteq> [] \<and>
              set ms \<subseteq> set task4_order - set (map (rename_label task4_rename) (columns df)))"
    using produce_task4_missing_key by blast
  from 1 2 3 4 show ?thesis
    by (simp only: produce_task1_def produce_task2_def produce_task3_def simp_thms)
qed

theorem projection_missing_column_fails_witness:
  "select [''ID'', ''MISSING''] (rename [(''id'', ''ID'')] id_only_example) = Inl (KeyError [''MISSING''])
   \<and> ''MISSING'' \<in> set [''ID'', ''MISSING'']
   \<and> ''MISSING'' \<notin> set (map (rename_label [(''id'', ''ID'')]) (columns id_only_example))
   \<and> (\<exists>e. select [''ID'', ''MISSING''] (rename [(''id'', ''ID'')] id_only_example) = Inl e)
   \<and> ''PRSHA'' \<in> set task4_order
   \<and> ''PRSHA'' \<notin> set (map (rename_label task4_rename) (columns id_only_example))
   \<and> distinct (map (rename_label task4_rename) (columns id_only_example))
   \<and> (\<exists>ms. produce_task4 id_only_example = Inl (KeyError ms) \<and> ms \<noteq> [])"
proof -
  have a: "''MISSING'' \<in> set [''ID'', ''MISSING'']"
    "''MISSING'' \<notin> set (map (rename_label [(''id'', ''ID'')]) (columns id_only_example))"
    by (simp_all add: id_only_example_def rename_label_def)
  have b: "''PRSHA'' \<in> set task4_order"
    "''PRSHA'' \<notin> set (map (rename_label task4_rename) (columns id_only_example))"
    "distinct (map (rename_label task4_rename) (columns id_only_example))"
    by (simp_all add: id_only_example_def rename_label_def task4_order_def task4_rename_def)
  from a projection_missing_column_fails
         [of id_only_example "[''ID'', ''MISSING'']" "[(''id'', ''ID'')]" "''MISSING''"]
  have c: "\<exists>e. select [''ID'', ''MISSING''] (rename [(''id'', ''ID'')] id_only_example) = Inl e"
    by blast
  from b projection_missing_column_fails [of id_only_example _ _ "''PRSHA''"]
  have d: "\<exists>ms. produce_task4 id_only_example = Inl (KeyError ms) \<and> ms \<noteq> []"
    by blast
  from a b c d ex_scenario_d show ?thesis by simp
qed

text \<open>
  C6. Of all cells of the four projected tables, only those of the \<^verbatim>\<open>PRDIFF\<close> column of
  task 4 go through \<open>clean_diff\<close>. In a well-formed table every output cell of tasks 1 to
  3 is the input cell of the same row under the renamed label, and so is every output cell
  of task 4 but the \<^verbatim>\<open>PRDIFF\<close> one, which is \<open>clean_diff\<close> of the input cell.
\<close>

theorem only_diff_sanitized:
  "produce_task1 df = select task1_order (rename task1_rename df)
   \<and> produce_task2 df = select task2_order (rename task2_rename df)
   \<and> produce_task3 df = select task3_order (rename task3_rename df)
   \<and> (wf_frame (rename m df) \<and> select order (rename m df) = Inr out \<longrightarrow>
        columns out = order \<and>
        rows out = map (\<lambda>r. map (row_get (map (rename_label m) (columns df)) r) order) (rows df))
   \<and> (wf_frame (rename task4_rename df) \<and> produce_task4 df = Inr out4 \<longrightarrow>
        columns out4 = task4_order \<and>
        rows out4 = map (\<lambda>r. map (\<lambda>n.
            if n = ''PRDIFF''
            then Str (clean_diff (row_get (map (rename_label task4_rename) (columns df)) r n))
            else row_get (map (rename_label task4_rename) (columns df)) r n) task4_order) (rows df))"
proof -
  have 1: "wf_frame (rename m df) \<and> select order (rename m df) = Inr out \<longrightarrow>
        columns out = order \<and>
        rows out = map (\<lambda>r. map (row_get (map (rename_label m) (columns df)) r) order) (rows df)"
    using select_success[of order "rename m df" out] by simp
  have 2: "wf_frame (rename task4_rename df) \<and> produce_task4 df = Inr out4 \<longrightarrow>
        columns out4 = task4_order \<and>
        rows out4 = map (\<lambda>r. map (\<lambda>n.
            if n = ''PRDIFF''
            then Str (clean_diff (row_get (map (rename_label task4_rename) (columns df)) r n))
            else row_get (map (rename_label task4_rename) (columns df)) r n) task4_order) (rows df)"
    using produce_task4_success[of df out4] by blast
  from 1 2 show ?thesis
    by (simp only: produce_task1_def produce_task2_def produce_task3_def simp_thms)
qed

theorem only_diff_sanitized_witness:
  "wf_frame (rename task1_rename raw_pr_example)
   \<and> select task1_order (rename task1_rename raw_pr_example) = Inr task1_out_example
   \<and> columns task1_out_example = task1_order
   \<and> rows task1_out_example
       = map (\<lambda>r. map (row_get (map (rename_label task1_rename) (columns raw_pr_example)) r) task1_order)
           (rows raw_pr_example)
   \<and> wf_frame (rename task4_rename commit_example)
   \<and> produce_task4 commit_example = Inr task4_out_example
   \<and> columns task4_out_example = task4_order
   \<and> rows task4_out_example = map (\<lambda>r. map (\<lambda>n.
            if n = ''PRDIFF''
            then Str (clean_diff (row_get (map (rename_label task4_rename) (columns commit_example)) r n))
            else row_get (map (rename_label task4_rename) (columns commit_example)) r n) task4_order)
          (rows commit_example)"
proof -
  have s: "select task1_order (rename task1_rename raw_pr_example) = Inr task1_out_example"
    using ex_task1 by (simp only: produce_task1_def)
  from only_diff_sanitized
         [of raw_pr_example task1_rename task1_order task1_out_example task4_out_example]
       only_diff_sanitized
         [of commit_example task1_rename task1_order task1_out_example task4_out_example]
       s ex_task4 ex_wf_raw
  show ?thesis by blast
qed

section \<open>The claims about the join and the security flag\<close>

text \<open>
  C1, as the program has it. The join is the left join of pandas: a PR row appears once for
  every classification row with its key, and once when there is none. So the output has
  the sum over the PR rows of \<open>fan_out\<close> many rows, never fewer than the PR table, and as
  many as the PR table when no PR row has two matching classification rows; the \<^verbatim>\<open>ID\<close>
  column lists the PR ids in order, each \<open>fan_out\<close> times.
\<close>

theorem left_join_row_count:
  assumes "wf_frame pr" "wf_frame cls" "produce_task5 U pr cls = Inr out"
  shows "length (rows out) = sum_list (map (fan_out pr cls) (rows pr))
       \<and> length (rows pr) \<le> length (rows out)
       \<and> ((\<forall>l\<in>set (rows pr). length (matching_rows pr cls ''ID'' ''PRID'' l) \<le> 1) \<longrightarrow>
            length (rows out) = length (rows pr))
       \<and> map (\<lambda>r. row_get (columns out) r ''ID'') (rows out)
            = concat (map (\<lambda>l. replicate (fan_out pr cls l) (row_get (columns pr) l ''ID'')) (rows pr))"
proof -
  from produce_task5_success[OF assms(3,1,2)] obtain M where
    m: "merge_left pr cls ''ID'' ''PRID'' ''_task3'' = Inr M" and
    len: "length (rows out) = length (rows M)" and
    ident: "map (\<lambda>r. row_get (columns out) r ''ID'') (rows out)
              = map (\<lambda>r. row_get (columns M) r ''ID'') (rows M)"
    by blast
  have 1: "length (rows out) = sum_list (map (fan_out pr cls) (rows pr))"
    using len merged_length[OF m] by simp
  have 2: "length (rows pr) \<le> length (rows out)"
    using 1 sum_fan_out_ge[of "rows pr" pr cls] by simp
  have 3: "(\<forall>l\<in>set (rows pr). length (matching_rows pr cls ''ID'' ''PRID'' l) \<le> 1) \<longrightarrow>
            length (rows out) = length (rows pr)"
    using 1 sum_fan_out_eq[of "rows pr" pr cls] by simp
  have c: "columns M = columns pr @ merge_labels (columns pr) (columns cls) ''_task3''"
    and k: "''ID'' \<in> set (columns pr)"
    using merge_left_success[OF m] by simp_all
  have "row_get (columns M) (l @ x) ''ID'' = row_get (columns pr) l ''ID''"
    if "l \<in> set (rows pr)" for l x
    unfolding c using rect_rows[OF assms(1) that] k by (rule row_get_left)
  from merged_map_left[OF m, of "\<lambda>r. row_get (columns M) r ''ID''"
      "\<lambda>l. row_get (columns pr) l ''ID''", OF this]
  have 4: "map (\<lambda>r. row_get (columns out) r ''ID'') (rows out)
            = concat (map (\<lambda>l. replicate (fan_out pr cls l) (row_get (columns pr) l ''ID'')) (rows pr))"
    using ident by simp
  from 1 2 3 4 show ?thesis by blast
qed

theorem left_join_row_count_witness:
  "wf_frame pr_example \<and> wf_frame cls_once \<and> wf_frame cls_twice
   \<and> produce_task5 id pr_example cls_once = Inr out_once
   \<and> produce_task5 id pr_example cls_twice = Inr out_twice
   \<and> list_all (\<lambda>l. length (matching_rows pr_example cls_once ''ID'' ''PRID'' l) \<le> 1) (rows pr_example)
   \<and> length (rows out_once) = length (rows pr_example)
   \<and> length (rows out_twice) = sum_list (map (fan_out pr_example cls_twice) (rows pr_example))
   \<and> length (rows pr_example) \<le> length (rows out_twice)
   \<and> map (\<lambda>r. row_get (columns out_twice) r ''ID'') (rows out_twice)
        = concat (map (\<lambda>l. replicate (fan_out pr_example cls_twice l)
                          (row_get (columns pr_example) l ''ID'')) (rows pr_example))"
proof -
  note a = left_join_row_count[OF ex_wf_pr ex_wf_cls(2) ex_task5_once]
  note b = left_join_row_count[OF ex_wf_pr ex_wf_cls(3) ex_task5_twice]
  have "length (rows out_once) = length (rows pr_example)"
    using a ex_matches_once by (simp add: list_all_iff)
  with a b ex_wf_pr ex_wf_cls ex_task5_once ex_task5_twice ex_matches_once show ?thesis
    by simp
qed

text \<open>
  Two classification rows for PR 1: the output has three rows, the PR table two.
\<close>

theorem left_join_row_count_counterexample:
  "wf_frame pr_example \<and> wf_frame cls_twice
   \<and> produce_task5 id pr_example cls_twice = Inr out_twice
   \<and> length (rows out_twice) = 3 \<and> length (rows pr_example) = 2
   \<and> length (rows out_twice) \<noteq> length (rows pr_example)
   \<and> map (\<lambda>r. row_get (columns out_twice) r ''ID'') (rows out_twice) = [Num 1, Num 1, Num 5]"
  using ex_wf_pr ex_wf_cls(3) ex_task5_twice ex_lengths ex_id_columns(2) by simp

text \<open>
  C2. The keyword loop returns 1 exactly when one of the keywords, lower-cased, occurs in
  the text as a contiguous substring, and 0 otherwise; so does \<open>has_security_flag\<close> on the
  text it builds from a row, and on a row with a title \<open>X\<close> only that is the case exactly
  when a keyword occurs in the lower-cased \<open>X\<close>. The empty text gives 0. The lower-cased
  keywords are the 39 listed.
\<close>

theorem security_scan_iff:
  "(scan_keywords (keywords_lower U) T = 1)
      = (\<exists>k\<in>set security_keywords. \<exists>ps ss. T = ps @ py_lower U k @ ss)
   \<and> (scan_keywords (keywords_lower U) T = 0)
      = (\<not> (\<exists>k\<in>set security_keywords. \<exists>ps ss. T = ps @ py_lower U k @ ss))
   \<and> (has_security_flag U cols row = 1)
      = (\<exists>k\<in>set security_keywords. \<exists>ps ss. flag_text U cols row = ps @ py_lower U k @ ss)
   \<and> (has_security_flag U [''TITLE''] [Str X] = 1)
      = (\<exists>k\<in>set security_keywords. \<exists>ps ss. py_lower U X = ps @ py_lower U k @ ss)
   \<and> scan_keywords (keywords_lower U) [] = 0
   \<and> keywords_lower U = map asc
       [''race'', ''racy'', ''buffer'', ''overflow'', ''stack'', ''integer'', ''signedness'',
        ''underflow'', ''improper'', ''unauthenticated'', ''gain access'', ''permission'',
        ''cross site'', ''css'', ''xss'', ''denial service'', ''dos'', ''crash'', ''deadlock'',
        ''injection'', ''request forgery'', ''csrf'', ''xsrf'', ''forged'', ''security'',
        ''vulnerability'', ''vulnerable'', ''exploit'', ''attack'', ''bypass'', ''backdoor'',
        ''threat'', ''expose'', ''breach'', ''violate'', ''fatal'', ''blacklist'', ''overrun'',
        ''insecure'']"
proof -
  have s: "(\<exists>k\<in>set (keywords_lower U). py_in k t)
             = (\<exists>k\<in>set security_keywords. \<exists>ps ss. t = ps @ py_lower U k @ ss)" for t
    by (simp add: keywords_lower_def py_in_iff)
  have 1: "(scan_keywords (keywords_lower U) T = 1)
      = (\<exists>k\<in>set security_keywords. \<exists>ps ss. T = ps @ py_lower U k @ ss)"
    by (simp only: scan_keywords_one s)
  have 2: "(scan_keywords (keywords_lower U) T = 0)
      = (\<not> (\<exists>k\<in>set security_keywords. \<exists>ps ss. T = ps @ py_lower U k @ ss))"
    by (simp only: scan_keywords_zero s)
  have 3: "(has_security_flag U cols row = 1)
      = (\<exists>k\<in>set security_keywords. \<exists>ps ss. flag_text U cols row = ps @ py_lower U k @ ss)"
    by (simp only: has_security_flag_def scan_keywords_one s)
  have 4: "(has_security_flag U [''TITLE''] [Str X] = 1)
      = (\<exists>k\<in>set security_keywords. \<exists>ps ss. py_lower U X = ps @ py_lower U k @ ss)"
    using has_flag_title[of U X] by (simp only: sublist_def)
  have 5: "scan_keywords (keywords_lower U) [] = 0"
    by (simp add: keywords_lower_eq security_keywords_def asc_def)
  have 6: "keywords_lower U = map asc
       [''race'', ''racy'', ''buffer'', ''overflow'', ''stack'', ''integer'', ''signedness'',
        ''underflow'', ''improper'', ''unauthenticated'', ''gain access'', ''permission'',
        ''cross site'', ''css'', ''xss'', ''denial service'', ''dos'', ''crash'', ''deadlock'',
        ''injection'', ''request forgery'', ''csrf'', ''xsrf'', ''forged'', ''security'',
        ''vulnerability'', ''vulnerable'', ''exploit'', ''attack'', ''bypass'', ''backdoor'',
        ''threat'', ''expose'', ''breach'', ''violate'', ''fatal'', ''blacklist'', ''overrun'',
        ''insecure'']"
    by (simp only: keywords_lower_eq security_keywords_def)
  from 1 2 3 4 5 6 show ?thesis by blast
qed

theorem security_scan_iff_witness:
  "scan_keywords (keywords_lower id) (asc ''a cross site b'') = 1
   \<and> (\<exists>k\<in>set security_keywords. \<exists>ps ss. asc ''a cross site b'' = ps @ py_lower id k @ ss)
   \<and> scan_keywords (keywords_lower id) (asc ''cross the site'') = 0
   \<and> \<not> (\<exists>k\<in>set security_keywords. \<exists>ps ss. asc ''cross the site'' = ps @ py_lower id k @ ss)
   \<and> has_security_flag id [''TITLE''] [Str (asc ''Dosage'')] = 1
   \<and> (\<exists>k\<in>set security_keywords. \<exists>ps ss. py_lower id (asc ''Dosage'') = ps @ py_lower id k @ ss)"
  using security_scan_iff[of id "asc ''a cross site b''" "[''TITLE'']" "[Str (asc ''Dosage'')]" "asc ''Dosage''"]
    security_scan_iff[of id "asc ''cross the site''" "[''TITLE'']" "[Str (asc ''Dosage'')]" "asc ''Dosage''"]
    ex_scans
  by blast

text \<open>
  C3. The \<^verbatim>\<open>SECURITY\<close> cell of every output row is the result of the keyword loop on the
  lower-cased title, one space, and the lower-cased body of the joined row, where a missing
  title or body stands for the empty string. The title \<^verbatim>\<open>"Fix XSS vulnerability"\<close> with a
  missing body gives the text \<^verbatim>\<open>"fix xss vulnerability "\<close> and the flag 1.
\<close>

theorem security_flag_of_row:
  "(wf_frame pr \<and> wf_frame cls \<and> merge_left pr cls ''ID'' ''PRID'' ''_task3'' = Inr merged \<and>
    produce_task5 U pr cls = Inr out \<longrightarrow>
      map (\<lambda>r. row_get (columns out) r ''SECURITY'') (rows out)
        = map (\<lambda>r. Num (scan_keywords (keywords_lower U)
                 ((if isna (row_get (columns merged) r ''TITLE'') then []
                   else py_lower U (py_str (row_get (columns merged) r ''TITLE'')))
                  @ [32] @
                  (if isna (row_get (columns merged) r ''BODYSTRING'') then []
                   else py_lower U (py_str (row_get (columns merged) r ''BODYSTRING'')))))) (rows merged))
   \<and> flag_text U [''TITLE'', ''BODYSTRING''] [Str (asc ''Fix XSS vulnerability''), NaN]
        = asc ''fix xss vulnerability ''
   \<and> flag_text U [''TITLE'', ''BODYSTRING''] [Str (asc ''Fix XSS vulnerability''), PyNone]
        = asc ''fix xss vulnerability ''
   \<and> has_security_flag U [''TITLE'', ''BODYSTRING''] [Str (asc ''Fix XSS vulnerability''), NaN] = 1
   \<and> has_security_flag U [''TITLE'', ''BODYSTRING''] [Str (asc ''Fix XSS vulnerability''), PyNone] = 1"
proof -
  have 1: "wf_frame pr \<and> wf_frame cls \<and> merge_left pr cls ''ID'' ''PRID'' ''_task3'' = Inr merged \<and>
    produce_task5 U pr cls = Inr out \<longrightarrow>
      map (\<lambda>r. row_get (columns out) r ''SECURITY'') (rows out)
        = map (\<lambda>r. Num (scan_keywords (keywords_lower U)
                 ((if isna (row_get (columns merged) r ''TITLE'') then []
                   else py_lower U (py_str (row_get (columns merged) r ''TITLE'')))
                  @ [32] @
                  (if isna (row_get (columns merged) r ''BODYSTRING'') then []
                   else py_lower U (py_str (row_get (columns merged) r ''BODYSTRING'')))))) (rows merged)"
  proof (intro impI, elim conjE)
    assume a: "wf_frame pr" "wf_frame cls" "merge_left pr cls ''ID'' ''PRID'' ''_task3'' = Inr merged"
      "produce_task5 U pr cls = Inr out"
    from produce_task5_success[OF a(4,1,2)] a(3)
    have "map (\<lambda>r. row_get (columns out) r ''SECURITY'') (rows out)
            = map (\<lambda>r. Num (has_security_flag U (columns merged) r)) (rows merged)"
      by auto
    then show "map (\<lambda>r. row_get (columns out) r ''SECURITY'') (rows out)
        = map (\<lambda>r. Num (scan_keywords (keywords_lower U)
                 ((if isna (row_get (columns merged) r ''TITLE'') then []
                   else py_lower U (py_str (row_get (columns merged) r ''TITLE'')))
                  @ [32] @
                  (if isna (row_get (columns merged) r ''BODYSTRING'') then []
                   else py_lower U (py_str (row_get (columns merged) r ''BODYSTRING'')))))) (rows merged)"
      by (simp add: has_security_flag_def flag_text_def Let_def)
  qed
  have t: "py_lower U (asc ''Fix XSS vulnerability'') = asc ''fix xss vulnerability''"
    by (simp add: py_lower_def asc_def ascii_lower_def)
  have 2: "flag_text U [''TITLE'', ''BODYSTRING''] [Str (asc ''Fix XSS vulnerability''), NaN]
        = asc ''fix xss vulnerability ''"
    by (simp add: flag_text_def row_get_def t) (simp add: asc_def)
  have 3: "flag_text U [''TITLE'', ''BODYSTRING''] [Str (asc ''Fix XSS vulnerability''), PyNone]
        = asc ''fix xss vulnerability ''"
    by (simp add: flag_text_def row_get_def t) (simp add: asc_def)
  have s: "scan_keywords (keywords_lower U) (asc ''fix xss vulnerability '') = 1"
    unfolding keywords_lower_eq by code_simp
  have 4: "has_security_flag U [''TITLE'', ''BODYSTRING''] [Str (asc ''Fix XSS vulnerability''), NaN] = 1"
    by (simp only: has_security_flag_def 2 s)
  have 5: "has_security_flag U [''TITLE'', ''BODYSTRING''] [Str (asc ''Fix XSS vulnerability''), PyNone] = 1"
    by (simp only: has_security_flag_def 3 s)
  from 1 2 3 4 5 show ?thesis by blast
qed

theorem security_flag_of_row_witness:
  "wf_frame pr_example \<and> wf_frame cls_twice
   \<and> merge_left pr_example cls_twice ''ID'' ''PRID'' ''_task3'' = Inr merged_twice
   \<and> produce_task5 id pr_example cls_twice = Inr out_twice
   \<and> map (\<lambda>r. row_get (columns out_twice) r ''SECURITY'') (rows out_twice) = [Num 1, Num 1, Num 0]
   \<and> map (\<lambda>r. Num (scan_keywords (keywords_lower id)
                 ((if isna (row_get (columns merged_twice) r ''TITLE'') then []
                   else py_lower id (py_str (row_get (columns merged_twice) r ''TITLE'')))
                  @ [32] @
                  (if isna (row_get (columns merged_twice) r ''BODYSTRING'') then []
                   else py_lower id (py_str (row_get (columns merged_twice) r ''BODYSTRING'')))))) (rows merged_twice)
        = map (\<lambda>r. row_get (columns out_twice) r ''SECURITY'') (rows out_twice)"
  using security_flag_of_row[of pr_example cls_twice merged_twice id out_twice]
    ex_wf_pr ex_wf_cls(3) ex_merge_twice ex_task5_twice ex_security_columns(3)
  by simp

text \<open>
  C9. \<open>has_security_flag\<close> returns 1 or 0, and so the \<^verbatim>\<open>SECURITY\<close> cell of every output
  row is the integer 1 or the integer 0.
\<close>

theorem security_flag_is_bit:
  "(has_security_flag U cols row = 1 \<or> has_security_flag U cols row = 0)
   \<and> (wf_frame pr \<and> wf_frame cls \<and> produce_task5 U pr cls = Inr out \<longrightarrow>
        (\<forall>r\<in>set (rows out). row_get (columns out) r ''SECURITY'' = Num 1 \<or>
                              row_get (columns out) r ''SECURITY'' = Num 0))"
proof -
  have 1: "has_security_flag U c r = 1 \<or> has_security_flag U c r = 0" for c r
    using scan_keywords_cases[of "keywords_lower U" "flag_text U c r"]
    by (auto simp: has_security_flag_def)
  have 2: "wf_frame pr \<and> wf_frame cls \<and> produce_task5 U pr cls = Inr out \<longrightarrow>
        (\<forall>r\<in>set (rows out). row_get (columns out) r ''SECURITY'' = Num 1 \<or>
                              row_get (columns out) r ''SECURITY'' = Num 0)"
  proof (intro impI ballI, elim conjE)
    fix r
    assume a: "wf_frame pr" "wf_frame cls" "produce_task5 U pr cls = Inr out" and r: "r \<in> set (rows out)"
    from produce_task5_success[OF a(3,1,2)] obtain M :: frame where
      e: "map (\<lambda>r. row_get (columns out) r ''SECURITY'') (rows out)
            = map (\<lambda>r. Num (has_security_flag U (columns M) r)) (rows M)" by blast
    have "row_get (columns out) r ''SECURITY'' \<in> set (map (\<lambda>r. row_get (columns out) r ''SECURITY'') (rows out))"
      using r by simp
    then have "row_get (columns out) r ''SECURITY'' \<in> set (map (\<lambda>r. Num (has_security_flag U (columns M) r)) (rows M))"
      by (simp only: e)
    then obtain x where "row_get (columns out) r ''SECURITY'' = Num (has_security_flag U (columns M) x)"
      by auto
    with 1[of "columns M" x]
    show "row_get (columns out) r ''SECURITY'' = Num 1 \<or> row_get (columns out) r ''SECURITY'' = Num 0"
      by auto
  qed
  from 1 2 show ?thesis by blast
qed

theorem security_flag_is_bit_witness:
  "wf_frame pr_example \<and> wf_frame cls_twice \<and> produce_task5 id pr_example cls_twice = Inr out_twice
   \<and> rows out_twice \<noteq> []
   \<and> list_all (\<lambda>r. row_get (columns out_twice) r ''SECURITY'' = Num 1 \<or>
                   row_get (columns out_twice) r ''SECURITY'' = Num 0) (rows out_twice)
   \<and> map (\<lambda>r. row_get (columns out_twice) r ''SECURITY'') (rows out_twice) = [Num 1, Num 1, Num 0]"
proof -
  have "rows out_twice \<noteq> []" by (simp add: out_twice_def)
  then show ?thesis
    using security_flag_is_bit[of id "[]" "[]" pr_example cls_twice out_twice]
      ex_wf_pr ex_wf_cls(3) ex_task5_twice ex_security_columns(3)
    by (simp add: list_all_iff)
qed

text \<open>
  C10, as the program has it. For a PR table with its \<^verbatim>\<open>TITLE\<close> and \<^verbatim>\<open>BODYSTRING\<close>
  columns, the flag of an output row is the flag of the PR row it comes from: the
  \<^verbatim>\<open>SECURITY\<close> column lists the flags of the PR rows in order, each \<open>fan_out\<close> times.
  Two classification tables that give every PR row the same \<open>fan_out\<close> therefore give the
  same \<^verbatim>\<open>SECURITY\<close> column.
\<close>

theorem security_flag_from_pr_row:
  assumes "wf_frame pr" "wf_frame cls" "wf_frame cls'"
    "''TITLE'' \<in> set (columns pr)" "''BODYSTRING'' \<in> set (columns pr)"
    "produce_task5 U pr cls = Inr out" "produce_task5 U pr cls' = Inr out'"
  shows "map (\<lambda>r. row_get (columns out) r ''SECURITY'') (rows out)
           = concat (map (\<lambda>l. replicate (fan_out pr cls l)
                              (Num (has_security_flag U (columns pr) l))) (rows pr))
       \<and> (map (fan_out pr cls) (rows pr) = map (fan_out pr cls') (rows pr) \<longrightarrow>
            map (\<lambda>r. row_get (columns out) r ''SECURITY'') (rows out)
              = map (\<lambda>r. row_get (columns out') r ''SECURITY'') (rows out'))"
proof -
  have col: "map (\<lambda>r. row_get (columns o1) r ''SECURITY'') (rows o1)
           = concat (map (\<lambda>l. replicate (fan_out pr c l)
                              (Num (has_security_flag U (columns pr) l))) (rows pr))"
    if w: "wf_frame c" and p: "produce_task5 U pr c = Inr o1" for c o1
  proof -
    from produce_task5_success[OF p assms(1) w] obtain M :: frame where
      m: "merge_left pr c ''ID'' ''PRID'' ''_task3'' = Inr M" and
      s: "map (\<lambda>r. row_get (columns o1) r ''SECURITY'') (rows o1)
            = map (\<lambda>r. Num (has_security_flag U (columns M) r)) (rows M)"
      by blast
    have cm: "columns M = columns pr @ merge_labels (columns pr) (columns c) ''_task3''"
      using merge_left_success[OF m] by simp
    have "Num (has_security_flag U (columns M) (l @ x)) = Num (has_security_flag U (columns pr) l)"
      if "l \<in> set (rows pr)" for l x
      unfolding cm using flag_left[OF rect_rows[OF assms(1) that] assms(4,5)] by simp
    from merged_map_left[OF m, of "\<lambda>r. Num (has_security_flag U (columns M) r)"
        "\<lambda>l. Num (has_security_flag U (columns pr) l)", OF this] s
    show ?thesis by simp
  qed
  note a = col[OF assms(2,6)]
  note b = col[OF assms(3,7)]
  have "map (\<lambda>r. row_get (columns out) r ''SECURITY'') (rows out)
          = map (\<lambda>r. row_get (columns out') r ''SECURITY'') (rows out')"
    if e: "map (fan_out pr cls) (rows pr) = map (fan_out pr cls') (rows pr)"
  proof -
    from e have "\<forall>l\<in>set (rows pr). fan_out pr cls l = fan_out pr cls' l" by (simp only: map_eq_conv)
    then have "map (\<lambda>l. replicate (fan_out pr cls l) (Num (has_security_flag U (columns pr) l))) (rows pr)
             = map (\<lambda>l. replicate (fan_out pr cls' l) (Num (has_security_flag U (columns pr) l))) (rows pr)"
      by (simp cong: map_cong)
    with a b show ?thesis by simp
  qed
  with a show ?thesis by blast
qed

theorem security_flag_from_pr_row_witness:
  "wf_frame pr_example \<and> wf_frame cls_none \<and> wf_frame cls_once
   \<and> ''TITLE'' \<in> set (columns pr_example) \<and> ''BODYSTRING'' \<in> set (columns pr_example)
   \<and> produce_task5 id pr_example cls_none = Inr out_none
   \<and> produce_task5 id pr_example cls_once = Inr out_once
   \<and> map (fan_out pr_example cls_none) (rows pr_example) = map (fan_out pr_example cls_once) (rows pr_example)
   \<and> map (\<lambda>r. row_get (columns out_none) r ''SECURITY'') (rows out_none)
        = map (\<lambda>r. row_get (columns out_once) r ''SECURITY'') (rows out_once)
   \<and> map (\<lambda>r. row_get (columns out_none) r ''SECURITY'') (rows out_none)
        = concat (map (\<lambda>l. replicate (fan_out pr_example cls_none l)
                          (Num (has_security_flag id (columns pr_example) l))) (rows pr_example))"
proof -
  have c: "''TITLE'' \<in> set (columns pr_example)" "''BODYSTRING'' \<in> set (columns pr_example)"
    by (simp_all add: pr_example_def)
  note t = security_flag_from_pr_row[OF ex_wf_pr ex_wf_cls(1) ex_wf_cls(2) c ex_task5_none ex_task5_once]
  have f: "map (fan_out pr_example cls_none) (rows pr_example) = map (fan_out pr_example cls_once) (rows pr_example)"
    by (simp only: ex_fan_out)
  with t have "map (\<lambda>r. row_get (columns out_none) r ''SECURITY'') (rows out_none)
        = map (\<lambda>r. row_get (columns out_once) r ''SECURITY'') (rows out_once)" by blast
  with t f c ex_wf_pr ex_wf_cls ex_task5_none ex_task5_once show ?thesis by blast
qed

text \<open>
  With no classification row the flags are 1, 0; with two classification rows for PR 1
  they are 1, 1, 0: the second rows differ.
\<close>

theorem security_flag_from_pr_row_counterexample:
  "wf_frame pr_example \<and> wf_frame cls_none \<and> wf_frame cls_twice
   \<and> produce_task5 id pr_example cls_none = Inr out_none
   \<and> produce_task5 id pr_example cls_twice = Inr out_twice
   \<and> map (\<lambda>r. row_get (columns out_none) r ''SECURITY'') (rows out_none) = [Num 1, Num 0]
   \<and> map (\<lambda>r. row_get (columns out_twice) r ''SECURITY'') (rows out_twice) = [Num 1, Num 1, Num 0]
   \<and> map (\<lambda>r. row_get (columns out_none) r ''SECURITY'') (rows out_none)
        \<noteq> map (\<lambda>r. row_get (columns out_twice) r ''SECURITY'') (rows out_twice)"
  using ex_wf_pr ex_wf_cls ex_task5_none ex_task5_twice ex_security_columns by simp

end
